theory Spec2Isabelle
  imports Complex_Main "HOL-Library.Word"
begin

unbundle bit_operations_syntax

section \<open>JavaScript values used by the audio pipeline\<close>

text \<open>
  A \<^verbatim>\<open>Uint8Array\<close> is a list of 8-bit words and an \<^verbatim>\<open>Int16Array\<close> a list of 16-bit
  words read through \<open>sint\<close>. A JavaScript string is the list of its UTF-16 code units.
  Audio samples and times are JavaScript numbers and are modelled as reals. For finite
  samples this is exact: the codec only scales by a power of two, truncates and divides
  by a power of two. The quotient that gives a buffer its duration and the sum that
  advances the playback cursor are rounded to a double (\<open>round_double\<close> below).
  \<^verbatim>\<open>NaN\<close> and the infinities are not represented.
\<close>

type_synonym u8 = "8 word"
type_synonym i16 = "16 word"
type_synonym js_string = "16 word list"

definition js_str :: "string \<Rightarrow> js_string" where
  "js_str cs = map (\<lambda>c. of_nat (of_char c)) cs"

text \<open>The platform exceptions that occur in the pipeline, by name.\<close>

datatype js_error = InvalidCharacterError | RangeError | NotSupportedError | InvalidStateError

section \<open>Base64: the platform's \<^verbatim>\<open>btoa\<close> and \<^verbatim>\<open>atob\<close>\<close>

text \<open>
  \<^verbatim>\<open>btoa\<close> and \<^verbatim>\<open>atob\<close> are browser functions. They are written out here after the
  WHATWG definitions: \<^verbatim>\<open>btoa\<close> throws \<^verbatim>\<open>InvalidCharacterError\<close> on a code unit above
  255 and otherwise applies RFC 4648 base64 with padding; \<^verbatim>\<open>atob\<close> is the forgiving
  decoder, which removes ASCII whitespace, removes one or two trailing \<^verbatim>\<open>=\<close> when the
  length is a multiple of four, rejects a length of 1 modulo 4 and any code unit outside
  the alphabet, and drops the bits left over in the last group.
\<close>

definition b64_char :: "nat \<Rightarrow> 16 word" where
  "b64_char i = of_nat (if i < 26 then 65 + i else if i < 52 then 71 + i
                        else if i < 62 then i - 4 else if i = 62 then 43 else 47)"

definition b64_index :: "16 word \<Rightarrow> nat option" where
  "b64_index c = (let n = unat c in
     if 65 \<le> n \<and> n \<le> 90 then Some (n - 65)
     else if 97 \<le> n \<and> n \<le> 122 then Some (n - 71)
     else if 48 \<le> n \<and> n \<le> 57 then Some (n + 4)
     else if n = 43 then Some 62
     else if n = 47 then Some 63
     else None)"

text \<open>The sextets of a byte sequence, three bytes to four sextets, without padding.\<close>

fun b64_groups :: "u8 list \<Rightarrow> nat list" where
  "b64_groups (a # b # c # bs) =
     [unat a div 4, (unat a mod 4) * 16 + unat b div 16,
      (unat b mod 16) * 4 + unat c div 64, unat c mod 64] @ b64_groups bs"
| "b64_groups [a, b] =
     [unat a div 4, (unat a mod 4) * 16 + unat b div 16, (unat b mod 16) * 4]"
| "b64_groups [a] = [unat a div 4, (unat a mod 4) * 16]"
| "b64_groups [] = []"

definition btoa :: "js_string \<Rightarrow> js_error + js_string" where
  "btoa s =
     (if list_ex (\<lambda>c. 255 < unat c) s then Inl InvalidCharacterError
      else let bytes = map ucast s :: u8 list
           in Inr (map b64_char (b64_groups bytes)
                   @ replicate ((3 - length bytes mod 3) mod 3) 61))"

definition ascii_whitespace :: "16 word \<Rightarrow> bool" where
  "ascii_whitespace c \<longleftrightarrow> c = 9 \<or> c = 10 \<or> c = 12 \<or> c = 13 \<or> c = 32"

definition drop_equals :: "js_string \<Rightarrow> js_string" where
  "drop_equals d = (if d \<noteq> [] \<and> last d = 61 then butlast d else d)"

definition strip_padding :: "js_string \<Rightarrow> js_string" where
  "strip_padding d =
     (if length d mod 4 = 0 \<and> d \<noteq> [] \<and> last d = 61 then drop_equals (butlast d) else d)"

fun sextets_to_bytes :: "nat list \<Rightarrow> u8 list" where
  "sextets_to_bytes (a # b # c # d # r) =
     [of_nat (a * 4 + b div 16), of_nat ((b mod 16) * 16 + c div 4),
      of_nat ((c mod 4) * 64 + d)] @ sextets_to_bytes r"
| "sextets_to_bytes [a, b, c] =
     [of_nat (a * 4 + b div 16), of_nat ((b mod 16) * 16 + c div 4)]"
| "sextets_to_bytes [a, b] = [of_nat (a * 4 + b div 16)]"
| "sextets_to_bytes [a] = []"
| "sextets_to_bytes [] = []"

definition atob :: "js_string \<Rightarrow> js_error + js_string" where
  "atob s =
     (let d = strip_padding (filter (\<lambda>c. \<not> ascii_whitespace c) s) in
      if length d mod 4 = 1 then Inl InvalidCharacterError
      else case those (map b64_index d) of
             None \<Rightarrow> Inl InvalidCharacterError
           | Some ixs \<Rightarrow> Inr (map ucast (sextets_to_bytes ixs)))"

section \<open>The audio helpers\<close>

text \<open>
  \<^verbatim>\<open>decode\<close> copies the code units of \<^verbatim>\<open>atob(base64)\<close> into a \<^verbatim>\<open>Uint8Array\<close>, which
  keeps the low eight bits of each; \<^verbatim>\<open>encode\<close> builds a string with one code unit per
  byte and passes it to \<^verbatim>\<open>btoa\<close>.
\<close>

definition decode :: "js_string \<Rightarrow> js_error + u8 list" where
  "decode base64 =
     (case atob base64 of
        Inl e \<Rightarrow> Inl e
      | Inr binaryString \<Rightarrow> Inr (map ucast binaryString))"

definition encode :: "u8 list \<Rightarrow> js_error + js_string" where
  "encode bytes = btoa (map ucast bytes)"

section \<open>Double-precision numbers\<close>

text \<open>
  A JavaScript number is an IEEE 754 double. \<open>round_double\<close> is the rounding that
  every arithmetic operation applies to its exact result: to the nearest double, ties to
  the even significand. The doubles around \<open>x\<close> are the multiples of \<open>ulp x\<close>, which is
  \<open>2\<close> to the power of the exponent of \<open>x\<close> less 52, the exponent being at least
  \<open>-1022\<close> (below that the doubles are subnormal and equally spaced). Results beyond the
  largest double, which JavaScript makes infinite, are not represented.
\<close>

fun bit_length :: "nat \<Rightarrow> nat" where
  "bit_length n = (if n = 0 then 0 else Suc (bit_length (n div 2)))"

declare bit_length.simps [simp del]

text \<open>For positive \<open>x\<close>, the integer \<open>e\<close> with \<open>2^e \<le> x < 2^(e+1)\<close>.\<close>

definition binary_exponent :: "real \<Rightarrow> int" where
  "binary_exponent x =
     (if 1 \<le> x then int (bit_length (nat \<lfloor>x\<rfloor>)) - 1
      else - int (bit_length (nat (\<lceil>1 / x\<rceil> - 1))))"

definition double_exponent :: "real \<Rightarrow> int" where
  "double_exponent x = max (binary_exponent \<bar>x\<bar>) (- 1022)"

definition ulp :: "real \<Rightarrow> real" where
  "ulp x = 2 powi (double_exponent x - 52)"

definition round_half_even :: "real \<Rightarrow> int" where
  "round_half_even y =
     (let r = \<lfloor>y\<rfloor>; f = y - of_int r
      in if f < 1 / 2 then r else if 1 / 2 < f then r + 1 else if even r then r else r + 1)"

definition round_double :: "real \<Rightarrow> real" where
  "round_double x = of_int (round_half_even (x / ulp x)) * ulp x"

definition is_double :: "real \<Rightarrow> bool" where
  "is_double x \<longleftrightarrow> round_double x = x"

subsection \<open>16-bit PCM\<close>

text \<open>
  Storing a number into an \<^verbatim>\<open>Int16Array\<close> truncates it towards zero and keeps the low
  sixteen bits (\<^verbatim>\<open>ToInt16\<close>). \<^verbatim>\<open>new Uint8Array(int16.buffer)\<close> and
  \<^verbatim>\<open>new Int16Array(data.buffer)\<close> view the same bytes, little-endian; the second
  throws \<^verbatim>\<open>RangeError\<close> on an odd byte length.
\<close>

definition js_trunc :: "real \<Rightarrow> int" where
  "js_trunc x = (if 0 \<le> x then \<lfloor>x\<rfloor> else \<lceil>x\<rceil>)"

definition to_int16 :: "real \<Rightarrow> i16" where
  "to_int16 x = word_of_int (js_trunc x)"

definition int16_bytes :: "i16 \<Rightarrow> u8 list" where
  "int16_bytes w = [ucast w, ucast (drop_bit 8 w)]"

definition uint8_view :: "i16 list \<Rightarrow> u8 list" where
  "uint8_view ws = concat (map int16_bytes ws)"

fun int16_pairs :: "u8 list \<Rightarrow> i16 list" where
  "int16_pairs (lo # hi # rest) = (ucast lo OR push_bit 8 (ucast hi)) # int16_pairs rest"
| "int16_pairs [b] = []"
| "int16_pairs [] = []"

definition int16_view :: "u8 list \<Rightarrow> js_error + i16 list" where
  "int16_view bytes = (if odd (length bytes) then Inl RangeError else Inr (int16_pairs bytes))"

text \<open>
  An \<^verbatim>\<open>AudioBuffer\<close>. \<^verbatim>\<open>createBuffer\<close> throws \<^verbatim>\<open>NotSupportedError\<close> when the number
  of channels or the number of frames is zero (the sample rate is taken to be one the
  context supports). \<^verbatim>\<open>decodeAudioData\<close> computes the frame count with the floating
  division \<^verbatim>\<open>dataInt16.length / numChannels\<close>; \<^verbatim>\<open>createBuffer\<close> keeps its integer
  part, and the stores of the loop beyond that length are ignored by the typed array,
  so the frame count is the integer quotient here. Each 16-bit sample divided by 32768
  is exactly representable as a 32-bit float. \<^verbatim>\<open>AudioBuffer.duration\<close> is the double
  \<^verbatim>\<open>length / sampleRate\<close>.
\<close>

record audio_buffer =
  numberOfChannels :: nat
  frames :: nat
  sampleRate :: real
  channelData :: "real list list"

definition duration :: "audio_buffer \<Rightarrow> real" where
  "duration b = round_double (real (frames b) / sampleRate b)"

definition createBuffer :: "nat \<Rightarrow> nat \<Rightarrow> real \<Rightarrow> js_error + audio_buffer" where
  "createBuffer numChannels len rate =
     (if numChannels = 0 \<or> len = 0 then Inl NotSupportedError
      else Inr \<lparr>numberOfChannels = numChannels, frames = len, sampleRate = rate,
                channelData = replicate numChannels (replicate len 0)\<rparr>)"

definition decodeAudioData :: "u8 list \<Rightarrow> real \<Rightarrow> nat \<Rightarrow> js_error + audio_buffer" where
  "decodeAudioData bytes rate numChannels =
     (case int16_view bytes of
        Inl e \<Rightarrow> Inl e
      | Inr dataInt16 \<Rightarrow>
          (let frameCount = length dataInt16 div numChannels in
           (case createBuffer numChannels frameCount rate of
              Inl e \<Rightarrow> Inl e
            | Inr buffer \<Rightarrow>
                Inr (buffer\<lparr>channelData :=
                       map (\<lambda>channel.
                              map (\<lambda>i. real_of_int (sint (dataInt16 ! (i * numChannels + channel)))
                                         / 32768)
                                  [0..<frameCount])
                           [0..<numChannels]\<rparr>))))"

record encoded_audio_payload =
  data :: js_string
  mimeType :: js_string

definition createBlob :: "real list \<Rightarrow> js_error + encoded_audio_payload" where
  "createBlob samples =
     (let int16 = map (\<lambda>x. to_int16 (x * 32768)) samples in
      case encode (uint8_view int16) of
        Inl e \<Rightarrow> Inl e
      | Inr b64 \<Rightarrow> Inr \<lparr>data = b64, mimeType = js_str ''audio/pcm;rate=16000''\<rparr>)"

section \<open>The application state and its handlers\<close>

text \<open>
  A value that can be thrown and caught: a \<^verbatim>\<open>DOMException\<close> with its name and message,
  another \<^verbatim>\<open>Error\<close> with its message, a string, or anything else. A
  \<^verbatim>\<open>DOMException\<close> is an instance of \<^verbatim>\<open>Error\<close>.
\<close>

datatype thrown =
    DOMException js_string js_string
  | ErrorObject js_string
  | StringValue js_string
  | OtherValue

text \<open>
  What the platform decides: the output context's clock at the time of the call, whether
  \<^verbatim>\<open>stop()\<close> on a source node throws, whether a method of the session object throws,
  \<^verbatim>\<open>String.prototype.toLowerCase\<close>, and the message text of the exceptions it raises.
\<close>

record platform =
  currentTime :: real
  stopThrows :: "nat \<Rightarrow> bool"
  callThrows :: "nat \<Rightarrow> bool"
  toLowerCase :: "js_string \<Rightarrow> js_string"
  errorText :: "js_error \<Rightarrow> js_string"

text \<open>
  A browser for the examples: its \<^verbatim>\<open>toLowerCase\<close> is given on ASCII letters only, and
  its exceptions carry the message \<^verbatim>\<open>bad data\<close>.
\<close>

definition ascii_toLowerCase :: "js_string \<Rightarrow> js_string" where
  "ascii_toLowerCase s = map (\<lambda>c. if 65 \<le> unat c \<and> unat c \<le> 90 then c + 32 else c) s"

definition browser :: "real \<Rightarrow> (nat \<Rightarrow> bool) \<Rightarrow> platform" where
  "browser clock failing =
     \<lparr>currentTime = clock, stopThrows = failing, callThrows = (\<lambda>promise. False),
      toLowerCase = ascii_toLowerCase, errorText = (\<lambda>e. js_str ''bad data'')\<rparr>"

definition error_name :: "js_error \<Rightarrow> js_string" where
  "error_name e = (case e of
       InvalidCharacterError \<Rightarrow> js_str ''InvalidCharacterError''
     | RangeError \<Rightarrow> js_str ''RangeError''
     | NotSupportedError \<Rightarrow> js_str ''NotSupportedError''
     | InvalidStateError \<Rightarrow> js_str ''InvalidStateError'')"

definition thrown_of :: "platform \<Rightarrow> js_error \<Rightarrow> thrown" where
  "thrown_of p e = (case e of
       RangeError \<Rightarrow> ErrorObject (errorText p e)
     | _ \<Rightarrow> DOMException (error_name e) (errorText p e))"

datatype console_level = Debug | Log | Warn | Err

datatype session_call = Close | SendRealtimeInput encoded_audio_payload


text \<open>
  Calls into the platform that act on a resource, in the order they are made. Handles
  (streams, nodes, contexts, promises) are natural numbers.
\<close>

datatype effect =
    SourceStart nat real real
  | SourceStop nat
  | TrackStop nat
  | Disconnect nat
  | ClearAudioProcess nat
  | ContextClose nat
  | ContextResume nat
  | CancelAnimationFrame nat
  | SessionClose nat
  | SessionSend nat encoded_audio_payload
  | Alert
  | OpenSelectKey

text \<open>
  The React state and the refs of \<^verbatim>\<open>App\<close> that the live conversation uses, followed by
  what the handlers leave in the platform: the callbacks registered with \<^verbatim>\<open>.then\<close> on a
  session promise (with the promise), the \<^verbatim>\<open>ended\<close> listeners of the live sources (with
  the \<^verbatim>\<open>interrupted\<close> flag of the message their closure captured), the effects, the
  console, and a counter for fresh handles. \<^verbatim>\<open>canvasRef\<close> is \<open>Some blank\<close> when a canvas
  with a 2d context is mounted.
\<close>

record app_state =
  textError :: "js_string option"
  isLoadingText :: bool
  isLiveApiConnected :: bool
  liveApiConnecting :: bool
  liveInputTranscription :: js_string
  liveOutputTranscription :: js_string
  liveError :: "js_string option"
  isAssistantSpeaking :: bool
  audioContextRef :: "nat option"
  outputAudioContextRef :: "nat option"
  nextStartTimeRef :: real
  sourcesRef :: "nat list"
  mediaStreamRef :: "nat option"
  scriptProcessorRef :: "nat option"
  sessionPromiseRef :: "nat option"
  analyserRef :: "nat option"
  animationFrameIdRef :: "nat option"
  canvasRef :: "bool option"
  thenCallbacks :: "(nat \<times> session_call) list"
  endedListeners :: "(nat \<times> bool) list"
  effects :: "effect list"
  console :: "console_level list"
  fresh :: nat

text \<open>The state at mount: the initial values of the \<^verbatim>\<open>useState\<close> and \<^verbatim>\<open>useRef\<close> hooks.\<close>

definition initial_state :: app_state where
  "initial_state =
     \<lparr>textError = None, isLoadingText = False, isLiveApiConnected = False,
      liveApiConnecting = False, liveInputTranscription = [], liveOutputTranscription = [],
      liveError = None, isAssistantSpeaking = False, audioContextRef = None,
      outputAudioContextRef = None, nextStartTimeRef = 0, sourcesRef = [],
      mediaStreamRef = None, scriptProcessorRef = None, sessionPromiseRef = None,
      analyserRef = None, animationFrameIdRef = None, canvasRef = None,
      thenCallbacks = [], endedListeners = [], effects = [], console = [], fresh = 0\<rparr>"

subsection \<open>Statements\<close>

text \<open>
  A statement runs on a state and either completes normally or throws; the state it
  leaves is kept in both cases. \<open>block\<close> is sequencing, \<open>try_catch\<close> is
  \<^verbatim>\<open>try { ... } catch (e) { ... }\<close>, \<open>forEach\<close> is iteration over a snapshot of a
  collection in insertion order.
\<close>

datatype completion = Normal | Throw thrown

type_synonym command = "app_state \<Rightarrow> completion \<times> app_state"

definition skip :: command where
  "skip s = (Normal, s)"

definition update :: "(app_state \<Rightarrow> app_state) \<Rightarrow> command" where
  "update f s = (Normal, f s)"

definition throw :: "thrown \<Rightarrow> command" where
  "throw e s = (Throw e, s)"

fun block :: "command list \<Rightarrow> command" where
  "block [] s = (Normal, s)"
| "block (c # cs) s = (case c s of (Normal, s') \<Rightarrow> block cs s' | (Throw e, s') \<Rightarrow> (Throw e, s'))"

definition try_catch :: "command \<Rightarrow> (thrown \<Rightarrow> command) \<Rightarrow> command" where
  "try_catch c h s = (case c s of (Normal, s') \<Rightarrow> (Normal, s') | (Throw e, s') \<Rightarrow> h e s')"

fun forEach :: "('a \<Rightarrow> command) \<Rightarrow> 'a list \<Rightarrow> command" where
  "forEach f [] s = (Normal, s)"
| "forEach f (x # xs) s =
     (case f x s of (Normal, s') \<Rightarrow> forEach f xs s' | (Throw e, s') \<Rightarrow> (Throw e, s'))"

definition perform :: "effect \<Rightarrow> command" where
  "perform e = update (\<lambda>s. s\<lparr>effects := effects s @ [e]\<rparr>)"

definition console_write :: "console_level \<Rightarrow> command" where
  "console_write l = update (\<lambda>s. s\<lparr>console := console s @ [l]\<rparr>)"

text \<open>\<^verbatim>\<open>Set.prototype.add\<close> on a set kept in insertion order.\<close>

definition set_add :: "nat \<Rightarrow> nat list \<Rightarrow> nat list" where
  "set_add x xs = (if x \<in> set xs then xs else xs @ [x])"

subsection \<open>String helpers\<close>

fun starts_with :: "js_string \<Rightarrow> js_string \<Rightarrow> bool" where
  "starts_with s [] = True"
| "starts_with [] (k # ks) = False"
| "starts_with (c # cs) (k # ks) = (c = k \<and> starts_with cs ks)"

fun js_includes :: "js_string \<Rightarrow> js_string \<Rightarrow> bool" where
  "js_includes [] k = (k = [])"
| "js_includes (c # cs) k = (starts_with (c # cs) k \<or> js_includes cs k)"

fun decimal :: "nat \<Rightarrow> js_string" where
  "decimal n = (if n < 10 then [of_nat (48 + n)]
                else decimal (n div 10) @ [of_nat (48 + n mod 10)])"

declare decimal.simps [simp del]

definition suicideKeywords :: "js_string list" where
  "suicideKeywords = map js_str
     [''suicidal'', ''kill myself'', ''ending it'', ''want to die'', ''take my own life'',
      ''can't go on'', ''hopeless'', ''end my life'', ''harm myself'', ''suicide'']"

definition checkSuicidalIntent :: "platform \<Rightarrow> js_string \<Rightarrow> bool" where
  "checkSuicidalIntent p text =
     (let lowerText = toLowerCase p text
      in list_ex (\<lambda>keyword. js_includes lowerText keyword) suicideKeywords)"

subsection \<open>Playback and error handlers\<close>

definition getOutputAudioContext :: command where
  "getOutputAudioContext s =
     (case outputAudioContextRef s of
        None \<Rightarrow>
          block [update (\<lambda>s. s\<lparr>outputAudioContextRef := Some (fresh s), fresh := Suc (fresh s)\<rparr>),
                 (\<lambda>s. case outputAudioContextRef s of
                         Some c \<Rightarrow> perform (ContextResume c) s
                       | None \<Rightarrow> skip s)] s
      | Some c \<Rightarrow> skip s)"

definition source_stop :: "platform \<Rightarrow> nat \<Rightarrow> command" where
  "source_stop p source =
     block [perform (SourceStop source),
            (\<lambda>s. if stopThrows p source then throw (thrown_of p InvalidStateError) s
                  else skip s)]"

definition stopAllAudioPlayback :: "platform \<Rightarrow> command" where
  "stopAllAudioPlayback p =
     block [(\<lambda>s. forEach (\<lambda>source. try_catch (source_stop p source) (\<lambda>e. console_write Warn))
                         (sourcesRef s) s),
            update (\<lambda>s. s\<lparr>sourcesRef := []\<rparr>),
            update (\<lambda>s. s\<lparr>nextStartTimeRef := 0\<rparr>),
            update (\<lambda>s. s\<lparr>isAssistantSpeaking := False\<rparr>)]"

definition is_abort :: "thrown \<Rightarrow> bool" where
  "is_abort error = (case error of
       DOMException name message \<Rightarrow> name = js_str ''AbortError''
     | _ \<Rightarrow> False)"

definition error_message :: "thrown \<Rightarrow> js_string \<Rightarrow> js_string" where
  "error_message error context = (case error of
       DOMException name message \<Rightarrow> message
     | ErrorObject message \<Rightarrow> message
     | StringValue s \<Rightarrow> s
     | OtherValue \<Rightarrow> js_str ''An error occurred during '' @ context @ js_str ''.'')"

definition handleApiError :: "thrown \<Rightarrow> js_string \<Rightarrow> command" where
  "handleApiError error context =
     block [console_write Err,
            (if is_abort error then
               block [console_write Debug,
                      update (\<lambda>s. s\<lparr>textError := None\<rparr>),
                      update (\<lambda>s. s\<lparr>liveError := None\<rparr>),
                      update (\<lambda>s. s\<lparr>isLoadingText := False\<rparr>),
                      update (\<lambda>s. s\<lparr>liveApiConnecting := False\<rparr>)]
             else
               (let errorMessage = error_message error context in
                block [update (\<lambda>s. s\<lparr>textError := Some errorMessage\<rparr>),
                       update (\<lambda>s. s\<lparr>liveApiConnecting := False\<rparr>),
                       update (\<lambda>s. s\<lparr>liveError := Some errorMessage\<rparr>),
                       (if js_includes errorMessage (js_str ''Requested entity was not found.'')
                        then block [perform Alert, perform OpenSelectKey]
                        else skip)]))]"

subsection \<open>Stopping the live conversation\<close>

definition stopAudioVisualization :: command where
  "stopAudioVisualization =
     block [(\<lambda>s. case animationFrameIdRef s of
                   Some i \<Rightarrow>
                     if i \<noteq> 0 then
                       block [perform (CancelAnimationFrame i),
                              update (\<lambda>s. s\<lparr>animationFrameIdRef := None\<rparr>)] s
                     else skip s
                 | None \<Rightarrow> skip s),
            (\<lambda>s. case canvasRef s of
                   Some blank \<Rightarrow> update (\<lambda>s. s\<lparr>canvasRef := Some True\<rparr>) s
                 | None \<Rightarrow> skip s)]"

definition stop_statements :: "platform \<Rightarrow> command list" where
  "stop_statements p =
     [(\<lambda>s. case sessionPromiseRef s of
             Some promise \<Rightarrow>
               update (\<lambda>s. s\<lparr>thenCallbacks := thenCallbacks s @ [(promise, Close)]\<rparr>) s
           | None \<Rightarrow> skip s),
      update (\<lambda>s. s\<lparr>sessionPromiseRef := None\<rparr>),
      (\<lambda>s. case mediaStreamRef s of
             Some stream \<Rightarrow>
               block [perform (TrackStop stream),
                      update (\<lambda>s. s\<lparr>mediaStreamRef := None\<rparr>)] s
           | None \<Rightarrow> skip s),
      (\<lambda>s. case scriptProcessorRef s of
             Some node \<Rightarrow>
               block [perform (Disconnect node),
                      perform (ClearAudioProcess node),
                      update (\<lambda>s. s\<lparr>scriptProcessorRef := None\<rparr>)] s
           | None \<Rightarrow> skip s),
      (\<lambda>s. case analyserRef s of
             Some node \<Rightarrow>
               block [perform (Disconnect node),
                      update (\<lambda>s. s\<lparr>analyserRef := None\<rparr>)] s
           | None \<Rightarrow> skip s),
      (\<lambda>s. case audioContextRef s of
             Some ctx \<Rightarrow>
               block [perform (ContextClose ctx),
                      update (\<lambda>s. s\<lparr>audioContextRef := None\<rparr>)] s
           | None \<Rightarrow> skip s),
      stopAllAudioPlayback p,
      stopAudioVisualization,
      update (\<lambda>s. s\<lparr>isLiveApiConnected := False\<rparr>),
      update (\<lambda>s. s\<lparr>liveApiConnecting := False\<rparr>)]"

text \<open>
  \<^verbatim>\<open>stopLiveConversation\<close> runs these statements in order. The first registers
  \<^verbatim>\<open>session.close()\<close> on the session promise, if there is one; the close itself runs
  later, when the promise's callbacks run (\<open>settle\<close> below). The rejection of
  \<^verbatim>\<open>audioContext.close()\<close> is only written to the console, later, and is left out.
\<close>

definition stopLiveConversation :: "platform \<Rightarrow> command" where
  "stopLiveConversation p = block (stop_statements p)"

subsection \<open>The callbacks of the live session\<close>

text \<open>
  The capture callback: \<^verbatim>\<open>sessionPromiseRef.current?.then(...).catch(...)\<close>. With a null
  ref the optional chain is skipped as a whole; otherwise the send is registered on the
  promise and runs when the promise is fulfilled.
\<close>

definition onaudioprocess :: "platform \<Rightarrow> real list \<Rightarrow> command" where
  "onaudioprocess p inputData s =
     (case createBlob inputData of
        Inl e \<Rightarrow> throw (thrown_of p e) s
      | Inr pcmBlob \<Rightarrow>
          (case sessionPromiseRef s of
             Some promise \<Rightarrow>
               update (\<lambda>s. s\<lparr>thenCallbacks :=
                               thenCallbacks s @ [(promise, SendRealtimeInput pcmBlob)]\<rparr>) s
           | None \<Rightarrow> skip s))"

record server_message =
  inputTranscription :: "js_string option option"
  outputTranscription :: "js_string option option"
  turnComplete :: bool
  interrupted :: bool
  inlineData :: "js_string option"

definition transcription_text :: "js_string option \<Rightarrow> js_string" where
  "transcription_text t = (case t of Some text \<Rightarrow> text | None \<Rightarrow> js_str ''undefined'')"

definition suicidal_input :: "platform \<Rightarrow> server_message \<Rightarrow> bool" where
  "suicidal_input p message =
     (case inputTranscription message of
        Some (Some text) \<Rightarrow> text \<noteq> [] \<and> checkSuicidalIntent p text
      | _ \<Rightarrow> False)"

definition decode_chunk :: "js_string \<Rightarrow> js_error + audio_buffer" where
  "decode_chunk b64 =
     (case decode b64 of
        Inl e \<Rightarrow> Inl e
      | Inr bytes \<Rightarrow> decodeAudioData bytes 24000 1)"

definition schedule_chunk :: "platform \<Rightarrow> server_message \<Rightarrow> js_string \<Rightarrow> command" where
  "schedule_chunk p message b64 s =
     (case decode_chunk b64 of
        Inl e \<Rightarrow> throw (thrown_of p e) s
      | Inr audioBuffer \<Rightarrow>
          (let source = fresh s in
           block [update (\<lambda>s. s\<lparr>fresh := Suc (fresh s)\<rparr>),
                  update (\<lambda>s. s\<lparr>endedListeners :=
                                  endedListeners s @ [(source, interrupted message)]\<rparr>),
                  (\<lambda>s. perform (SourceStart source (nextStartTimeRef s) (duration audioBuffer)) s),
                  update (\<lambda>s. s\<lparr>nextStartTimeRef :=
                                  round_double (nextStartTimeRef s + duration audioBuffer)\<rparr>),
                  update (\<lambda>s. s\<lparr>sourcesRef := set_add source (sourcesRef s)\<rparr>),
                  update (\<lambda>s. s\<lparr>isAssistantSpeaking := True\<rparr>)] s))"

definition update_transcriptions :: "server_message \<Rightarrow> command" where
  "update_transcriptions message =
     block [(case outputTranscription message of
               Some t \<Rightarrow> update (\<lambda>s. s\<lparr>liveOutputTranscription :=
                             liveOutputTranscription s @ transcription_text t\<rparr>)
             | None \<Rightarrow> skip),
            (case inputTranscription message of
               Some t \<Rightarrow> update (\<lambda>s. s\<lparr>liveInputTranscription :=
                             liveInputTranscription s @ transcription_text t\<rparr>)
             | None \<Rightarrow> skip),
            (if turnComplete message then
               block [console_write Debug,
                      update (\<lambda>s. s\<lparr>liveInputTranscription := []\<rparr>),
                      update (\<lambda>s. s\<lparr>liveOutputTranscription := []\<rparr>)]
             else skip)]"

definition process_audio :: "platform \<Rightarrow> server_message \<Rightarrow> command" where
  "process_audio p message =
     (case inlineData message of
        Some base64EncodedAudioString \<Rightarrow>
          if base64EncodedAudioString \<noteq> [] then
            block [getOutputAudioContext,
                   update (\<lambda>s. s\<lparr>nextStartTimeRef :=
                                   max (nextStartTimeRef s) (currentTime p)\<rparr>),
                   try_catch (schedule_chunk p message base64EncodedAudioString)
                     (\<lambda>decodeError.
                        block [handleApiError decodeError (js_str ''Live API audio decoding''),
                               update (\<lambda>s. s\<lparr>isAssistantSpeaking := False\<rparr>)])]
          else skip
      | None \<Rightarrow> skip)"

definition handle_interrupted :: "platform \<Rightarrow> server_message \<Rightarrow> command" where
  "handle_interrupted p message =
     (if interrupted message then
        block [(\<lambda>s. forEach (\<lambda>source. try_catch (source_stop p source)
                                            (\<lambda>e. console_write Warn))
                            (sourcesRef s) s),
               update (\<lambda>s. s\<lparr>sourcesRef := []\<rparr>),
               update (\<lambda>s. s\<lparr>isAssistantSpeaking := False\<rparr>),
               update (\<lambda>s. s\<lparr>nextStartTimeRef := 0\<rparr>)]
      else skip)"

text \<open>
  \<^verbatim>\<open>onmessage\<close> is an \<^verbatim>\<open>async\<close> function whose only \<^verbatim>\<open>await\<close> is on
  \<^verbatim>\<open>decodeAudioData\<close>, which itself awaits nothing: the handler resumes in the same
  microtask checkpoint, before the next message or capture event, and is one step here.
\<close>

definition onmessage :: "platform \<Rightarrow> server_message \<Rightarrow> command" where
  "onmessage p message =
     block [console_write Log,
            (if suicidal_input p message then
               block [perform Alert, stopLiveConversation p]
             else
               block [update_transcriptions message,
                      process_audio p message,
                      handle_interrupted p message])]"

text \<open>The \<^verbatim>\<open>ended\<close> listener that \<^verbatim>\<open>onmessage\<close> attaches to a live source.\<close>

definition onended :: "nat \<Rightarrow> command" where
  "onended source s =
     (case map_of (endedListeners s) source of
        None \<Rightarrow> skip s
      | Some messageInterrupted \<Rightarrow>
          block [update (\<lambda>s. s\<lparr>sourcesRef := removeAll source (sourcesRef s)\<rparr>),
                 (\<lambda>s. if sourcesRef s = [] \<and> \<not> messageInterrupted
                       then update (\<lambda>s. s\<lparr>isAssistantSpeaking := False\<rparr>) s
                       else skip s)] s)"

definition onerror :: "platform \<Rightarrow> js_string option \<Rightarrow> command" where
  "onerror p message =
     block [console_write Err,
            update (\<lambda>s. s\<lparr>liveError := Some (js_str ''Live API Error: '' @
                       (case message of
                          Some m \<Rightarrow> if m \<noteq> [] then m else js_str ''Unknown error''
                        | None \<Rightarrow> js_str ''Unknown error''))\<rparr>),
            stopLiveConversation p]"

record close_event =
  code :: "16 word"
  reason :: js_string

definition onclose :: "close_event \<Rightarrow> command" where
  "onclose e =
     block [console_write Debug,
            update (\<lambda>s. s\<lparr>isLiveApiConnected := False\<rparr>),
            update (\<lambda>s. s\<lparr>liveApiConnecting := False\<rparr>),
            (if code e \<noteq> 1000 then
               update (\<lambda>s. s\<lparr>liveError := Some (js_str ''Live API closed unexpectedly: Code '' @
                          decimal (unat (code e)) @ js_str '', Reason: '' @ reason e)\<rparr>)
             else skip),
            update (\<lambda>s. s\<lparr>liveInputTranscription := []\<rparr>),
            update (\<lambda>s. s\<lparr>liveOutputTranscription := []\<rparr>),
            update (\<lambda>s. s\<lparr>isAssistantSpeaking := False\<rparr>)]"

text \<open>
  The callbacks registered on a session promise run, in registration order, when the
  promise settles: on fulfilment each calls its method of the session, and an exception
  from it goes to the \<^verbatim>\<open>.catch\<close> handler, which writes to the console; on rejection
  only the \<^verbatim>\<open>.catch\<close> handlers run. A \<open>SessionSend\<close> effect is a frame reaching the
  transport.
\<close>

definition run_callback :: "platform \<Rightarrow> nat \<Rightarrow> session_call \<Rightarrow> command" where
  "run_callback p promise call =
     try_catch
       (case call of
          Close \<Rightarrow>
            block [perform (SessionClose promise),
                   (\<lambda>s. if callThrows p promise then throw (thrown_of p InvalidStateError) s
                         else skip s),
                   console_write Debug]
        | SendRealtimeInput blob \<Rightarrow>
            block [perform (SessionSend promise blob),
                   (\<lambda>s. if callThrows p promise then throw (thrown_of p InvalidStateError) s
                         else skip s)])
       (\<lambda>e. console_write Err)"

definition settle :: "platform \<Rightarrow> nat \<Rightarrow> bool \<Rightarrow> command" where
  "settle p promise fulfilled =
     block [(\<lambda>s. forEach (\<lambda>call. if fulfilled then run_callback p promise call
                                else console_write Err)
                         (map snd (filter (\<lambda>(q, call). q = promise) (thenCallbacks s))) s),
            update (\<lambda>s. s\<lparr>thenCallbacks :=
                            filter (\<lambda>(q, call). q \<noteq> promise) (thenCallbacks s)\<rparr>)]"

subsection \<open>Events and what is observed of a run\<close>

datatype event =
    MessageArrives platform server_message
  | SourceEnds nat
  | FrameCaptured platform "real list"

fun fire :: "event \<Rightarrow> command" where
  "fire (MessageArrives p message) = onmessage p message"
| "fire (SourceEnds source) = onended source"
| "fire (FrameCaptured p inputData) = onaudioprocess p inputData"

text \<open>The start time and duration of every source started, in order.\<close>

fun scheduled :: "effect list \<Rightarrow> (real \<times> real) list" where
  "scheduled [] = []"
| "scheduled (SourceStart source t d # es) = (t, d) # scheduled es"
| "scheduled (e # es) = scheduled es"

text \<open>The effects that release a capture resource.\<close>

fun releases :: "effect \<Rightarrow> bool" where
  "releases (TrackStop stream) = True"
| "releases (Disconnect node) = True"
| "releases (ClearAudioProcess node) = True"
| "releases (ContextClose ctx) = True"
| "releases e = False"

text \<open>The audio buffer a message carries, if it carries a payload that decodes.\<close>

definition has_payload :: "server_message \<Rightarrow> bool" where
  "has_payload message = (case inlineData message of Some b64 \<Rightarrow> b64 \<noteq> [] | None \<Rightarrow> False)"

definition chunk_of :: "server_message \<Rightarrow> audio_buffer option" where
  "chunk_of message =
     (case inlineData message of
        Some b64 \<Rightarrow>
          if b64 \<noteq> [] then (case decode_chunk b64 of Inr buffer \<Rightarrow> Some buffer | Inl e \<Rightarrow> None)
          else None
      | None \<Rightarrow> None)"

text \<open>An event that does not reset the playback cursor: no interruption and no stop.\<close>

fun calm :: "event \<Rightarrow> bool" where
  "calm (MessageArrives p message) = (\<not> interrupted message \<and> \<not> suicidal_input p message)"
| "calm (SourceEnds source) = True"
| "calm (FrameCaptured p inputData) = True"

text \<open>
  The audio payloads that arrive, in order: the clock reading at arrival and, when the
  payload decodes, the duration of the chunk.
\<close>

fun arrivals :: "event list \<Rightarrow> (real \<times> real option) list" where
  "arrivals [] = []"
| "arrivals (MessageArrives p message # evs) =
     (if has_payload message
      then (currentTime p, map_option duration (chunk_of message)) # arrivals evs
      else arrivals evs)"
| "arrivals (e # evs) = arrivals evs"

text \<open>
  The schedule as the specification words it: on arrival the cursor moves to the maximum of
  itself and the clock; a chunk that decodes starts there, and the cursor then advances
  by exactly the chunk's duration. \<open>chained\<close> is the claimed consequence: each start is
  at or after the previous start and at or after the previous start plus the previous
  duration.
\<close>

fun claimed_starts :: "real \<Rightarrow> (real \<times> real option) list \<Rightarrow> (real \<times> real) list" where
  "claimed_starts cursor [] = []"
| "claimed_starts cursor ((clock, Some d) # rest) =
     (max cursor clock, d) # claimed_starts (max cursor clock + d) rest"
| "claimed_starts cursor ((clock, None) # rest) = claimed_starts (max cursor clock) rest"

fun chained :: "(real \<times> real) list \<Rightarrow> bool" where
  "chained ((t1, d1) # (t2, d2) # rest) =
     (t1 \<le> t2 \<and> t1 + d1 \<le> t2 \<and> chained ((t2, d2) # rest))"
| "chained [x] = True"
| "chained [] = True"

text \<open>
  The same schedule with the sum as the code computes it: the cursor advances to the
  double nearest to the start plus the duration. \<open>back_to_back\<close> is the consequence
  that holds of it: each start is at or after the previous start, at or after the double
  sum of the previous start and duration, and so within the rounding error of the exact
  sum.
\<close>

fun double_starts :: "real \<Rightarrow> (real \<times> real option) list \<Rightarrow> (real \<times> real) list" where
  "double_starts cursor [] = []"
| "double_starts cursor ((clock, Some d) # rest) =
     (max cursor clock, d) # double_starts (round_double (max cursor clock + d)) rest"
| "double_starts cursor ((clock, None) # rest) = double_starts (max cursor clock) rest"

fun back_to_back :: "(real \<times> real) list \<Rightarrow> bool" where
  "back_to_back ((t1, d1) # (t2, d2) # rest) =
     (t1 \<le> t2 \<and> round_double (t1 + d1) \<le> t2
      \<and> t1 + d1 - max (\<bar>t1 + d1\<bar> / 2 ^ 53) (1 / 2 ^ 1075) \<le> t2
      \<and> back_to_back ((t2, d2) # rest))"
| "back_to_back [x] = True"
| "back_to_back [] = True"

text \<open>An event whose clock reading, if it has one, is a double.\<close>

fun double_clock :: "event \<Rightarrow> bool" where
  "double_clock (MessageArrives p message) = is_double (currentTime p)"
| "double_clock (SourceEnds source) = True"
| "double_clock (FrameCaptured p inputData) = True"

section \<open>Base64 round trip\<close>

lemma byte_bound: "unat (a :: u8) < 256"
  using unsigned_less [of a, where ?'a = nat] by simp

lemma unat_ucast_byte: "unat (ucast (b :: u8) :: 16 word) = unat b"
  using byte_bound [of b] by (simp add: unsigned_ucast_eq take_bit_nat_eq_self)

lemma ucast_byte_id: "(ucast (ucast (b :: u8) :: 16 word) :: u8) = b"
  by (simp add: ucast_up_ucast_id is_up)

lemma b64_index_char: "i < 64 \<Longrightarrow> b64_index (b64_char i) = Some i"
  by (simp add: b64_index_def b64_char_def unat_of_nat Let_def) arith

lemma unat_b64_char:
  "i < 64 \<Longrightarrow> unat (b64_char i) = (if i < 26 then 65 + i else if i < 52 then 71 + i
                        else if i < 62 then i - 4 else if i = 62 then 43 else 47)"
  by (simp add: b64_char_def unat_of_nat)

lemma b64_char_not_space: "i < 64 \<Longrightarrow> \<not> ascii_whitespace (b64_char i)"
proof
  assume i: "i < 64" and "ascii_whitespace (b64_char i)"
  then have "unat (b64_char i) \<in> {9, 10, 12, 13, 32}"
    unfolding ascii_whitespace_def by auto
  with i show False
    by (auto simp add: unat_b64_char split: if_splits)
qed

lemma b64_char_not_equals: "i < 64 \<Longrightarrow> b64_char i \<noteq> 61"
proof
  assume i: "i < 64" and "b64_char i = 61"
  then have "unat (b64_char i) = 61" by simp
  with i show False
    by (simp add: unat_b64_char split: if_splits)
qed

lemma regroup_div: "q < m \<Longrightarrow> (r * m + q) div m = (r :: nat)"
  by simp

lemma regroup_mod: "q < m \<Longrightarrow> (r * m + q) mod m = (q :: nat)"
  by simp

lemma regroup_first: "y < 256 \<Longrightarrow> x div 4 * 4 + (x mod 4 * 16 + y div 16) div 16 = (x :: nat)"
proof -
  assume "y < 256"
  then have "y div 16 < 16" by simp
  then show ?thesis by (simp add: regroup_div)
qed

lemma regroup_second:
  "y < 256 \<Longrightarrow> z < 256 \<Longrightarrow>
   (x mod 4 * 16 + y div 16) mod 16 * 16 + (y mod 16 * 4 + z div 64) div 4 = (y :: nat)"
proof -
  assume "y < 256" "z < 256"
  then have "y div 16 < 16" "z div 64 < 4" by simp_all
  then show ?thesis by (simp add: regroup_div regroup_mod)
qed

lemma regroup_third: "z < 256 \<Longrightarrow> (y mod 16 * 4 + z div 64) mod 4 * 64 + z mod 64 = (z :: nat)"
proof -
  assume "z < 256"
  then have "z div 64 < 4" by simp
  then show ?thesis by (simp add: regroup_mod)
qed

lemma sextets_b64_groups: "sextets_to_bytes (b64_groups bs) = bs"
proof (induction bs rule: b64_groups.induct)
  case (1 a b c bs)
  have "sextets_to_bytes (b64_groups (a # b # c # bs)) =
        [of_nat (unat a div 4 * 4 + (unat a mod 4 * 16 + unat b div 16) div 16),
         of_nat ((unat a mod 4 * 16 + unat b div 16) mod 16 * 16
                 + (unat b mod 16 * 4 + unat c div 64) div 4),
         of_nat ((unat b mod 16 * 4 + unat c div 64) mod 4 * 64 + unat c mod 64)]
        @ sextets_to_bytes (b64_groups bs)"
    by (simp only: b64_groups.simps sextets_to_bytes.simps append_Cons append_Nil)
  also have "\<dots> = [a, b, c] @ bs"
    by (simp only: regroup_first regroup_second regroup_third byte_bound of_nat_unat ucast_id 1)
  finally show ?case by simp
next
  case (2 a b)
  have "sextets_to_bytes (b64_groups [a, b]) =
        [of_nat (unat a div 4 * 4 + (unat a mod 4 * 16 + unat b div 16) div 16),
         of_nat ((unat a mod 4 * 16 + unat b div 16) mod 16 * 16 + (unat b mod 16 * 4) div 4)]"
    by (simp only: b64_groups.simps sextets_to_bytes.simps)
  also have "(unat b mod 16 * 4) div 4 = (unat b mod 16 * 4 + 0 div 64) div 4"
    by simp
  also have "[of_nat (unat a div 4 * 4 + (unat a mod 4 * 16 + unat b div 16) div 16),
         of_nat ((unat a mod 4 * 16 + unat b div 16) mod 16 * 16
                 + (unat b mod 16 * 4 + 0 div 64) div 4)] = [a, b]"
    using regroup_second [of "unat b" 0 "unat a"]
    by (simp only: regroup_first byte_bound of_nat_unat ucast_id)
  finally show ?case .
next
  case (3 a)
  have "sextets_to_bytes (b64_groups [a]) =
        [of_nat (unat a div 4 * 4 + (unat a mod 4 * 16) div 16)]"
    by (simp only: b64_groups.simps sextets_to_bytes.simps)
  also have "(unat a mod 4 * 16) div 16 = unat a mod 4" by simp
  also have "unat a div 4 * 4 + unat a mod 4 = unat a" by simp
  finally show ?case by simp
qed simp

lemma those_b64_index:
  "\<forall>i \<in> set xs. i < 64 \<Longrightarrow> those (map b64_index (map b64_char xs)) = Some xs"
  by (induction xs) (simp_all add: b64_index_char)

lemma length_b64_groups:
  "length (b64_groups bs) =
     4 * (length bs div 3) + (if length bs mod 3 = 0 then 0 else length bs mod 3 + 1)"
  by (induction bs rule: b64_groups.induct) auto

lemma b64_groups_bound: "\<forall>i \<in> set (b64_groups bs). i < 64"
proof (induction bs rule: b64_groups.induct)
  case (1 a b c bs)
  then show ?case
    using byte_bound [of a] byte_bound [of b] byte_bound [of c] by auto
next
  case (2 a b)
  then show ?case
    using byte_bound [of a] byte_bound [of b] by auto
next
  case (3 a)
  then show ?case
    using byte_bound [of a] by auto
qed simp

lemma filter_encoded:
  "\<forall>i \<in> set xs. i < 64 \<Longrightarrow>
   filter (\<lambda>c. \<not> ascii_whitespace c) (map b64_char xs @ replicate k 61)
     = map b64_char xs @ replicate k 61"
proof -
  assume "\<forall>i \<in> set xs. i < 64"
  moreover have "\<not> ascii_whitespace 61" by (simp add: ascii_whitespace_def)
  ultimately show ?thesis
    by (auto simp: filter_id_conv b64_char_not_space)
qed

lemma drop_equals_body:
  "\<forall>i \<in> set xs. i < 64 \<Longrightarrow> drop_equals (map b64_char xs) = map b64_char xs"
  by (cases xs rule: rev_cases) (auto simp: drop_equals_def b64_char_not_equals)

lemma strip_padding_encoded:
  assumes "\<forall>i \<in> set xs. i < 64" and "k \<le> 2" and "(length xs + k) mod 4 = 0"
  shows "strip_padding (map b64_char xs @ replicate k 61) = map b64_char xs"
proof -
  consider "k = 0" | "k = 1" | "k = 2" using assms(2) by linarith
  then show ?thesis
  proof cases
    case 1
    have "strip_padding (map b64_char xs) = map b64_char xs"
      using assms(1) by (cases xs rule: rev_cases) (auto simp: strip_padding_def b64_char_not_equals)
    with 1 show ?thesis by simp
  next
    case 2
    have "replicate k 61 = [61 :: 16 word]" using 2 by simp
    then show ?thesis
      using assms(3) 2 drop_equals_body [OF assms(1)]
      by (simp add: strip_padding_def butlast_append)
  next
    case 3
    have "replicate k 61 = [61, 61 :: 16 word]" using 3 by (simp add: numeral_2_eq_2)
    then show ?thesis
      using assms(3) 3
      by (simp add: strip_padding_def drop_equals_def butlast_append)
  qed
qed

lemma atob_btoa_bytes:
  "atob (map b64_char (b64_groups bs) @ replicate ((3 - length bs mod 3) mod 3) 61)
     = Inr (map ucast bs)"
proof -
  let ?xs = "b64_groups bs" and ?k = "(3 - length bs mod 3) mod 3"
  have bound: "\<forall>i \<in> set ?xs. i < 64" by (rule b64_groups_bound)
  have k: "?k \<le> 2" by arith
  have len: "(length ?xs + ?k) mod 4 = 0"
    unfolding length_b64_groups by (auto; presburger)
  have len1: "length ?xs mod 4 \<noteq> 1"
    unfolding length_b64_groups by (auto; presburger)
  show ?thesis
    unfolding atob_def Let_def filter_encoded [OF bound] strip_padding_encoded [OF bound k len]
      those_b64_index [OF bound]
    using len1 by (simp add: sextets_b64_groups)
qed

lemma btoa_bytes:
  "btoa (map ucast (bytes :: u8 list)) =
     Inr (map b64_char (b64_groups bytes) @ replicate ((3 - length bytes mod 3) mod 3) 61)"
proof -
  have "unat c \<le> 255" for c :: u8
    using byte_bound [of c] by simp
  then have "\<not> list_ex (\<lambda>c. 255 < unat c) (map ucast bytes :: 16 word list)"
    by (auto simp: list_ex_iff unat_ucast_byte not_less)
  then show ?thesis
    by (simp add: btoa_def Let_def ucast_byte_id o_def)
qed

lemma decode_encode: "encode bytes = Inr s \<Longrightarrow> decode s = Inr bytes"
  by (auto simp: encode_def decode_def btoa_bytes atob_btoa_bytes ucast_byte_id o_def)

lemma encode_total: "\<exists>s. encode bytes = Inr s"
  by (simp add: encode_def btoa_bytes)

text \<open>
  C6. For every byte sequence, the empty one included, \<^verbatim>\<open>encode\<close> returns a string and
  \<^verbatim>\<open>decode\<close> of that string returns exactly the original bytes.
\<close>

theorem base64_roundtrip: "\<exists>s. encode bytes = Inr s \<and> decode s = Inr bytes"
  using encode_total [of bytes] decode_encode [of bytes] by blast

section \<open>Properties of double rounding\<close>

lemma bit_length_bounds:
  "0 < n \<Longrightarrow> 2 ^ (bit_length n - 1) \<le> n \<and> n < 2 ^ bit_length n"
proof (induction n rule: bit_length.induct)
  case (1 n)
  show ?case
  proof (cases "n div 2 = 0")
    case True
    with "1.prems" have "n = 1" by arith
    moreover have "bit_length (Suc 0) = 1"
      by (simp add: bit_length.simps [of "Suc 0"] bit_length.simps [of 0])
    ultimately show ?thesis by simp
  next
    case False
    with "1.IH" "1.prems" have ih: "2 ^ (bit_length (n div 2) - 1) \<le> n div 2"
      "n div 2 < 2 ^ bit_length (n div 2)"
      by simp_all
    have pos: "0 < bit_length (n div 2)"
      using False by (simp add: bit_length.simps [of "n div 2"])
    have b: "bit_length n = Suc (bit_length (n div 2))"
      using "1.prems" by (simp add: bit_length.simps [of n])
    have "(2 :: nat) ^ bit_length (n div 2) = 2 * 2 ^ (bit_length (n div 2) - 1)"
      using pos by (cases "bit_length (n div 2)") simp_all
    then have "2 ^ (bit_length n - 1) \<le> 2 * (n div 2)"
      using ih(1) by (simp add: b)
    moreover have "n < 2 * 2 ^ bit_length (n div 2)"
      using ih(2) by linarith
    ultimately show ?thesis
      unfolding b by (simp; linarith)
  qed
qed

lemma bit_length_pos: "0 < n \<Longrightarrow> 0 < bit_length n"
  by (simp add: bit_length.simps [of n])

lemma binary_exponent_bounds:
  assumes "0 < x"
  shows "2 powi binary_exponent x \<le> x" and "x < 2 powi (binary_exponent x + 1)"
proof -
  have "2 powi binary_exponent x \<le> x \<and> x < 2 powi (binary_exponent x + 1)"
  proof (cases "1 \<le> x")
    case True
    let ?n = "nat \<lfloor>x\<rfloor>"
    have n: "0 < ?n" using True by simp
    have e: "binary_exponent x = int (bit_length ?n - 1)"
      using True bit_length_pos [OF n] by (simp add: binary_exponent_def)
    have e1: "int (bit_length ?n - 1) + 1 = int (bit_length ?n)"
      using bit_length_pos [OF n] by simp
    from bit_length_bounds [OF n] have lo: "2 ^ (bit_length ?n - 1) \<le> ?n"
      and hi: "?n < 2 ^ bit_length ?n" by simp_all
    have "real (2 ^ (bit_length ?n - 1)) \<le> real ?n"
      using lo by (rule of_nat_mono)
    also have "real ?n \<le> x" using True by simp
    finally have "real (2 ^ (bit_length ?n - 1)) \<le> x" .
    then have l: "2 ^ (bit_length ?n - 1) \<le> x" by simp
    have "?n + 1 \<le> 2 ^ bit_length ?n" using hi by linarith
    then have "real (?n + 1) \<le> real (2 ^ bit_length ?n)"
      by (rule of_nat_mono)
    moreover have "x < real (?n + 1)" using True by simp linarith
    ultimately have "x < real (2 ^ bit_length ?n)" by linarith
    then have h: "x < 2 ^ bit_length ?n" by simp
    show ?thesis unfolding e e1 using l h by simp
  next
    case False
    with assms have inv: "1 < 1 / x" by simp
    let ?m = "nat (\<lceil>1 / x\<rceil> - 1)"
    have c: "2 \<le> \<lceil>1 / x\<rceil>" using inv by linarith
    then have m: "0 < ?m" by simp
    have e: "binary_exponent x = - int (bit_length ?m)"
      using False by (simp add: binary_exponent_def)
    from bit_length_bounds [OF m] have lo: "2 ^ (bit_length ?m - 1) \<le> ?m"
      and hi: "?m < 2 ^ bit_length ?m" by simp_all
    have "?m + 1 \<le> 2 ^ bit_length ?m" using hi by linarith
    then have "real (?m + 1) \<le> real (2 ^ bit_length ?m)"
      by (rule of_nat_mono)
    moreover have "1 / x \<le> real (?m + 1)" using c by simp linarith
    ultimately have "1 / x \<le> real (2 ^ bit_length ?m)" by linarith
    then have "1 / x \<le> 2 ^ bit_length ?m" by simp
    then have l: "1 / 2 ^ bit_length ?m \<le> x"
      using assms by (simp add: field_simps)
    have "real (2 ^ (bit_length ?m - 1)) \<le> real ?m"
      using lo by (rule of_nat_mono)
    moreover have "real ?m < 1 / x" using c by simp linarith
    ultimately have "real (2 ^ (bit_length ?m - 1)) < 1 / x" by linarith
    then have "2 ^ (bit_length ?m - 1) < 1 / x" by simp
    then have h: "x < 1 / 2 ^ (bit_length ?m - 1)"
      using assms by (simp add: field_simps)
    have p1: "2 powi (- int (bit_length ?m)) = (1 :: real) / 2 ^ bit_length ?m"
      by (simp add: power_int_minus field_simps)
    have "- int (bit_length ?m) + 1 = - int (bit_length ?m - 1)"
      using bit_length_pos [OF m] by simp
    then have "(2 :: real) powi (- int (bit_length ?m) + 1) = 2 powi (- int (bit_length ?m - 1))"
      by (simp only:)
    also have "\<dots> = 1 / 2 ^ (bit_length ?m - 1)"
      by (simp only: power_int_minus power_int_of_nat inverse_eq_divide)
    finally have p2: "2 powi (- int (bit_length ?m) + 1) = (1 :: real) / 2 ^ (bit_length ?m - 1)" .
    show ?thesis unfolding e p1 p2 using l h by simp
  qed
  then show "2 powi binary_exponent x \<le> x" and "x < 2 powi (binary_exponent x + 1)"
    by simp_all
qed

lemma binary_exponent_unique:
  assumes "2 powi a \<le> x" and "x < 2 powi (a + 1)"
  shows "binary_exponent x = a"
proof -
  have pos: "0 < x"
    using assms(1) zero_less_power_int [of "2 :: real" a] by linarith
  note b = binary_exponent_bounds [OF pos]
  have "(2 :: real) powi a < 2 powi (binary_exponent x + 1)"
    using assms(1) b(2) by linarith
  then have "a < binary_exponent x + 1"
    by (metis linorder_not_less power_int_increasing one_le_numeral)
  moreover have "(2 :: real) powi binary_exponent x < 2 powi (a + 1)"
    using assms(2) b(1) by linarith
  then have "binary_exponent x < a + 1"
    by (metis linorder_not_less power_int_increasing one_le_numeral)
  ultimately show ?thesis by simp
qed

lemma round_half_even_cases:
  "round_half_even y = \<lfloor>y\<rfloor> \<or> round_half_even y = \<lfloor>y\<rfloor> + 1"
  by (simp add: round_half_even_def Let_def)

lemma round_half_even_int [simp]: "round_half_even (of_int k) = k"
  by (simp add: round_half_even_def Let_def)

lemma round_half_even_close: "\<bar>real_of_int (round_half_even y) - y\<bar> \<le> 1 / 2"
  unfolding round_half_even_def Let_def
  by (auto simp: abs_le_iff; linarith)

lemma round_half_even_mono:
  assumes "y \<le> z"
  shows "round_half_even y \<le> round_half_even z"
proof (cases "\<lfloor>y\<rfloor> = \<lfloor>z\<rfloor>")
  case True
  with assms have "y - of_int \<lfloor>y\<rfloor> \<le> z - of_int \<lfloor>z\<rfloor>" by simp
  with True show ?thesis
    unfolding round_half_even_def Let_def by auto
next
  case False
  with assms have "\<lfloor>y\<rfloor> < \<lfloor>z\<rfloor>"
    using floor_mono [OF assms] by linarith
  moreover have "round_half_even y \<le> \<lfloor>y\<rfloor> + 1"
    using round_half_even_cases [of y] by auto
  moreover have "\<lfloor>z\<rfloor> \<le> round_half_even z"
    using round_half_even_cases [of z] by auto
  ultimately show ?thesis by linarith
qed

lemma round_half_even_minus: "round_half_even (- y) = - round_half_even y"
proof (cases "y = of_int \<lfloor>y\<rfloor>")
  case True
  then obtain k where k: "y = of_int k" ..
  have "round_half_even (of_int (- k)) = - k"
    by (rule round_half_even_int)
  then show ?thesis
    unfolding k by simp
next
  case False
  then have lt: "of_int \<lfloor>y\<rfloor> < y" by linarith
  have fl: "\<lfloor>- y\<rfloor> = - \<lfloor>y\<rfloor> - 1"
  proof (rule floor_unique)
    show "real_of_int (- \<lfloor>y\<rfloor> - 1) \<le> - y" by simp linarith
    show "- y < real_of_int (- \<lfloor>y\<rfloor> - 1) + 1" using lt by simp
  qed
  have par: "even (- \<lfloor>y\<rfloor> - 1) \<longleftrightarrow> odd \<lfloor>y\<rfloor>" by simp
  show ?thesis
    unfolding round_half_even_def Let_def fl par
    by (auto simp: field_simps)
qed

lemma ulp_pos: "0 < ulp x"
  by (simp add: ulp_def)

lemma ulp_minus: "ulp (- x) = ulp x"
  by (simp add: ulp_def double_exponent_def)

lemma round_double_minus: "round_double (- x) = - round_double x"
  by (simp add: round_double_def ulp_minus round_half_even_minus)

lemma round_double_zero [simp]: "round_double 0 = 0"
  by (simp add: round_double_def round_half_even_def)

text \<open>Rounding never crosses a point of the grid it rounds to.\<close>

lemma round_double_below_grid:
  assumes "x \<le> real_of_int k * ulp x"
  shows "round_double x \<le> real_of_int k * ulp x"
proof -
  have "x / ulp x \<le> real_of_int k"
    using assms ulp_pos [of x] by (simp add: field_simps)
  from round_half_even_mono [OF this] have "round_half_even (x / ulp x) \<le> k" by simp
  then have "real_of_int (round_half_even (x / ulp x)) \<le> real_of_int k" by simp
  then show ?thesis
    unfolding round_double_def using ulp_pos [of x] by (simp add: mult_right_mono)
qed

lemma round_double_above_grid:
  assumes "real_of_int k * ulp x \<le> x"
  shows "real_of_int k * ulp x \<le> round_double x"
proof -
  have "real_of_int k \<le> x / ulp x"
    using assms ulp_pos [of x] by (simp add: field_simps)
  from round_half_even_mono [OF this] have "k \<le> round_half_even (x / ulp x)" by simp
  then have "real_of_int k \<le> real_of_int (round_half_even (x / ulp x))" by simp
  then show ?thesis
    unfolding round_double_def using ulp_pos [of x] by (simp add: mult_right_mono)
qed

lemma round_double_nonneg: "0 \<le> x \<Longrightarrow> 0 \<le> round_double x"
  using round_double_above_grid [of 0 x] by simp

lemma round_double_nonpos: "x \<le> 0 \<Longrightarrow> round_double x \<le> 0"
  using round_double_below_grid [of x 0] by simp

lemma round_double_error: "\<bar>round_double x - x\<bar> \<le> ulp x / 2"
proof -
  have "round_double x - x = (real_of_int (round_half_even (x / ulp x)) - x / ulp x) * ulp x"
    using ulp_pos [of x] by (simp add: round_double_def field_simps)
  then have "\<bar>round_double x - x\<bar> = \<bar>real_of_int (round_half_even (x / ulp x)) - x / ulp x\<bar> * ulp x"
    using ulp_pos [of x] by (simp add: abs_mult)
  also have "\<dots> \<le> 1 / 2 * ulp x"
    using round_half_even_close [of "x / ulp x"] ulp_pos [of x]
    by (intro mult_right_mono) simp_all
  finally show ?thesis by simp
qed

lemma binade_top: "2 powi (double_exponent x + 1) = real_of_int (2 ^ 53) * ulp x"
proof -
  have "double_exponent x + 1 = 53 + (double_exponent x - 52)" by simp
  then have "(2 :: real) powi (double_exponent x + 1) = 2 powi 53 * 2 powi (double_exponent x - 52)"
    by (simp only: power_int_add [of "2 :: real", simplified])
  then show ?thesis by (simp add: ulp_def)
qed

lemma binade_bottom: "2 powi double_exponent x = real_of_int (2 ^ 52) * ulp x"
proof -
  have "double_exponent x = 52 + (double_exponent x - 52)" by simp
  then have "(2 :: real) powi double_exponent x = 2 powi 52 * 2 powi (double_exponent x - 52)"
    by (metis power_int_add zero_neq_numeral)
  then show ?thesis by (simp add: ulp_def)
qed

lemma below_binade_top: "x \<noteq> 0 \<Longrightarrow> \<bar>x\<bar> < 2 powi (double_exponent x + 1)"
proof -
  assume "x \<noteq> 0"
  then have "\<bar>x\<bar> < 2 powi (binary_exponent \<bar>x\<bar> + 1)"
    by (intro binary_exponent_bounds) simp
  also have "\<dots> \<le> 2 powi (double_exponent x + 1)"
    by (intro power_int_increasing) (simp_all add: double_exponent_def)
  finally show ?thesis .
qed

lemma above_binade_bottom:
  "x \<noteq> 0 \<Longrightarrow> - 1022 \<le> binary_exponent \<bar>x\<bar> \<Longrightarrow> 2 powi double_exponent x \<le> \<bar>x\<bar>"
  using binary_exponent_bounds(1) [of "\<bar>x\<bar>"] by (simp add: double_exponent_def max_def)

lemma double_exponent_cases:
  "double_exponent x = binary_exponent \<bar>x\<bar> \<and> - 1022 \<le> binary_exponent \<bar>x\<bar>
   \<or> double_exponent x = - 1022 \<and> binary_exponent \<bar>x\<bar> < - 1022"
  by (auto simp: double_exponent_def max_def)

lemma on_own_grid: "y = real_of_int m * ulp y \<Longrightarrow> round_double y = y"
proof -
  assume y: "y = real_of_int m * ulp y"
  have "y / ulp y = real_of_int m"
    using ulp_pos [of y] by (subst y) simp
  then show ?thesis
    unfolding round_double_def using y by simp
qed

lemma power_int_less_exp: "(2 :: real) powi a < 2 powi b \<Longrightarrow> a < b"
  by (metis linorder_not_less power_int_increasing one_le_numeral)

lemma round_double_idem_pos:
  assumes "0 < x"
  shows "round_double (round_double x) = round_double x"
proof -
  let ?E = "double_exponent x" and ?y = "round_double x"
  obtain m where m: "?y = real_of_int m * ulp x"
    by (auto simp: round_double_def)
  have nonneg: "0 \<le> ?y" using assms by (simp add: round_double_nonneg)
  have "x < real_of_int (2 ^ 53) * ulp x"
    using below_binade_top [of x] assms unfolding binade_top by simp
  then have top: "?y \<le> 2 powi (?E + 1)"
    unfolding binade_top by (intro round_double_below_grid) simp
  consider "?y = 0" | "?y = 2 powi (?E + 1)" | "0 < ?y" "?y < 2 powi (?E + 1)"
    using nonneg top by linarith
  then show ?thesis
  proof cases
    case 1
    then show ?thesis by simp
  next
    case 2
    have "2 powi (?E + 1) \<le> \<bar>?y\<bar>" using 2 by simp
    moreover have "\<bar>?y\<bar> < 2 powi (?E + 1 + 1)"
      unfolding 2 by (simp add: power_int_strict_increasing)
    ultimately have "binary_exponent \<bar>?y\<bar> = ?E + 1"
      by (rule binary_exponent_unique)
    moreover have "- 1022 \<le> ?E" by (simp add: double_exponent_def)
    ultimately have e: "double_exponent ?y = ?E + 1"
      by (simp add: double_exponent_def)
    have "?E + 1 = 52 + (double_exponent ?y - 52)" using e by simp
    then have "(2 :: real) powi (?E + 1) = 2 powi 52 * 2 powi (double_exponent ?y - 52)"
      by (metis power_int_add zero_neq_numeral)
    then have "?y = real_of_int (2 ^ 52) * ulp ?y"
      using 2 by (simp add: ulp_def)
    then show ?thesis by (rule on_own_grid)
  next
    case 3
    have "double_exponent ?y = ?E"
      using double_exponent_cases [of x]
    proof
      assume n: "?E = binary_exponent \<bar>x\<bar> \<and> - 1022 \<le> binary_exponent \<bar>x\<bar>"
      then have "2 powi ?E \<le> x"
        using above_binade_bottom [of x] assms by simp
      then have "real_of_int (2 ^ 52) * ulp x \<le> ?y"
        unfolding binade_bottom by (rule round_double_above_grid)
      then have "2 powi ?E \<le> \<bar>?y\<bar>"
        unfolding binade_bottom using nonneg by simp
      moreover have "\<bar>?y\<bar> < 2 powi (?E + 1)" using 3 by simp
      ultimately have "binary_exponent \<bar>?y\<bar> = ?E"
        by (rule binary_exponent_unique)
      with n show ?thesis by (simp add: double_exponent_def)
    next
      assume s: "?E = - 1022 \<and> binary_exponent \<bar>x\<bar> < - 1022"
      have "2 powi binary_exponent \<bar>?y\<bar> \<le> \<bar>?y\<bar>"
        using 3 by (intro binary_exponent_bounds) simp
      also have "\<bar>?y\<bar> < 2 powi (?E + 1)" using 3 by simp
      finally have "binary_exponent \<bar>?y\<bar> < ?E + 1"
        by (rule power_int_less_exp)
      with s show ?thesis by (simp add: double_exponent_def)
    qed
    then have "ulp ?y = ulp x" by (simp add: ulp_def)
    with m have "?y = real_of_int m * ulp ?y" by simp
    then show ?thesis by (rule on_own_grid)
  qed
qed

lemma round_double_idem: "round_double (round_double x) = round_double x"
proof -
  consider "x = 0" | "0 < x" | "0 < - x" by linarith
  then show ?thesis
  proof cases
    case 1
    then show ?thesis by simp
  next
    case 2
    then show ?thesis by (rule round_double_idem_pos)
  next
    case 3
    from round_double_idem_pos [OF this] show ?thesis
      by (simp add: round_double_minus)
  qed
qed

lemma round_double_mono_pos:
  assumes "0 < x" "x \<le> y"
  shows "round_double x \<le> round_double y"
proof -
  let ?Ex = "double_exponent x" and ?Ey = "double_exponent y"
  have y: "0 < y" using assms by linarith
  consider "?Ex = ?Ey" | "?Ex < ?Ey" | "?Ey < ?Ex" by linarith
  then show ?thesis
  proof cases
    case 1
    then have u: "ulp x = ulp y" by (simp add: ulp_def)
    have "x / ulp y \<le> y / ulp y"
      using assms(2) ulp_pos [of y] by (simp add: divide_right_mono)
    from round_half_even_mono [OF this] show ?thesis
      unfolding round_double_def u using ulp_pos [of y] by (simp add: mult_right_mono)
  next
    case 2
    have "x < real_of_int (2 ^ 53) * ulp x"
      using below_binade_top [of x] assms(1) unfolding binade_top by simp
    then have "round_double x \<le> 2 powi (?Ex + 1)"
      unfolding binade_top by (intro round_double_below_grid) simp
    also have "\<dots> \<le> 2 powi ?Ey"
      using 2 by (intro power_int_increasing) simp_all
    also have "\<dots> \<le> round_double y"
    proof -
      have "- 1022 \<le> ?Ex" by (simp add: double_exponent_def)
      with 2 have "- 1022 \<le> binary_exponent \<bar>y\<bar>"
        using double_exponent_cases [of y] by linarith
      then have "2 powi ?Ey \<le> y"
        using above_binade_bottom [of y] y by simp
      then show ?thesis
        unfolding binade_bottom by (rule round_double_above_grid)
    qed
    finally show ?thesis .
  next
    case 3
    have "- 1022 \<le> ?Ey" by (simp add: double_exponent_def)
    with 3 have "- 1022 \<le> binary_exponent \<bar>x\<bar>"
      using double_exponent_cases [of x] by linarith
    then have "2 powi ?Ex \<le> x"
      using above_binade_bottom [of x] assms(1) by simp
    also have "x \<le> y" by fact
    also have "y < 2 powi (?Ey + 1)"
      using below_binade_top [of y] y by simp
    finally have "?Ex < ?Ey + 1" by (rule power_int_less_exp)
    with 3 show ?thesis by simp
  qed
qed

lemma round_double_mono:
  assumes "x \<le> y"
  shows "round_double x \<le> round_double y"
proof -
  consider "0 < x" | "x \<le> 0" "0 \<le> y" | "y < 0" by linarith
  then show ?thesis
  proof cases
    case 1
    then show ?thesis using assms by (rule round_double_mono_pos)
  next
    case 2
    then have "round_double x \<le> 0" "0 \<le> round_double y"
      by (simp_all add: round_double_nonpos round_double_nonneg)
    then show ?thesis by linarith
  next
    case 3
    then have "0 < - y" "- y \<le> - x" using assms by simp_all
    from round_double_mono_pos [OF this] show ?thesis
      by (simp add: round_double_minus)
  qed
qed

lemma round_double_tolerance:
  "\<bar>round_double x - x\<bar> \<le> max (\<bar>x\<bar> / 2 ^ 53) (1 / 2 ^ 1075)"
proof (cases "x = 0")
  case True
  then show ?thesis by simp
next
  case False
  have half: "ulp x / 2 = 2 powi (double_exponent x) / 2 ^ 53"
    unfolding binade_bottom by simp
  from double_exponent_cases [of x] show ?thesis
  proof
    assume "double_exponent x = binary_exponent \<bar>x\<bar> \<and> - 1022 \<le> binary_exponent \<bar>x\<bar>"
    then have "2 powi double_exponent x \<le> \<bar>x\<bar>"
      using above_binade_bottom [of x] False by simp
    then have "ulp x / 2 \<le> \<bar>x\<bar> / 2 ^ 53"
      unfolding half by (simp add: divide_right_mono)
    with round_double_error [of x] show ?thesis by linarith
  next
    assume "double_exponent x = - 1022 \<and> binary_exponent \<bar>x\<bar> < - 1022"
    then have "ulp x / 2 = 2 powi (- 1022) / 2 ^ 53"
      unfolding half by simp
    also have "\<dots> = 1 / 2 ^ 1075"
      by (simp add: power_int_minus field_simps flip: power_add)
    finally show ?thesis
      using round_double_error [of x] by linarith
  qed
qed

section \<open>The PCM payload\<close>

lemma encode_eq:
  "encode bytes =
     Inr (map b64_char (b64_groups bytes) @ replicate ((3 - length bytes mod 3) mod 3) 61)"
  by (simp add: encode_def btoa_bytes)

lemma createBlob_eq:
  "createBlob samples =
     Inr \<lparr>data = map b64_char (b64_groups (uint8_view (map (\<lambda>x. to_int16 (x * 32768)) samples)))
                  @ replicate ((3 - length (uint8_view (map (\<lambda>x. to_int16 (x * 32768)) samples))
                                    mod 3) mod 3) 61,
          mimeType = js_str ''audio/pcm;rate=16000''\<rparr>"
  by (simp add: createBlob_def Let_def encode_eq)

lemma decode_createBlob:
  "createBlob samples = Inr payload \<Longrightarrow>
   decode (data payload) = Inr (uint8_view (map (\<lambda>x. to_int16 (x * 32768)) samples))"
  by (auto simp: createBlob_def Let_def split: sum.splits dest: decode_encode)

lemma int16_bytes_join:
  "(ucast (ucast w :: u8) :: i16) OR push_bit 8 (ucast (ucast (drop_bit 8 w) :: u8)) = (w :: i16)"
  by (rule bit_word_eqI) (auto simp: bit_simps)

lemma int16_pairs_uint8_view: "int16_pairs (uint8_view ws) = ws"
  by (induction ws) (simp_all add: uint8_view_def int16_bytes_def int16_bytes_join)

lemma length_uint8_view: "length (uint8_view ws) = 2 * length ws"
  by (induction ws) (simp_all add: uint8_view_def int16_bytes_def)

lemma int16_view_uint8_view: "int16_view (uint8_view ws) = Inr ws"
  by (simp add: int16_view_def length_uint8_view int16_pairs_uint8_view)

lemma sint_int16: "sint (word_of_int k :: i16) = (k + 32768) mod 65536 - 32768"
  by (simp add: sint_sbintrunc' signed_take_bit_eq_take_bit_shift take_bit_eq_mod)

text \<open>
  C8. For every input, \<^verbatim>\<open>createBlob\<close> returns a payload whose MIME type is
  \<^verbatim>\<open>audio/pcm;rate=16000\<close> and whose data decodes to the little-endian bytes of one
  16-bit sample per input sample: the input scaled by 32768, truncated towards zero and
  reduced modulo \<open>2^16\<close> into the signed range. Nothing is clamped: a scaled value
  outside the range wraps.
\<close>

theorem createBlob_samples:
  "\<exists>payload bytes ws. createBlob samples = Inr payload
      \<and> mimeType payload = js_str ''audio/pcm;rate=16000''
      \<and> decode (data payload) = Inr bytes
      \<and> int16_view bytes = Inr ws
      \<and> map sint ws = map (\<lambda>x. (js_trunc (x * 32768) + 32768) mod 65536 - 32768) samples"
proof -
  obtain payload where p: "createBlob samples = Inr payload"
    by (simp add: createBlob_eq)
  have m: "mimeType payload = js_str ''audio/pcm;rate=16000''"
    using p by (auto simp: createBlob_eq)
  let ?ws = "map (\<lambda>x. to_int16 (x * 32768)) samples"
  have "map sint ?ws = map (\<lambda>x. (js_trunc (x * 32768) + 32768) mod 65536 - 32768) samples"
    by (simp add: to_int16_def sint_int16)
  with p m decode_createBlob [OF p] int16_view_uint8_view [of ?ws] show ?thesis
    by blast
qed

text \<open>
  C7. The full-scale sample 1 is within \<open>[-1, 1]\<close>, but \<^verbatim>\<open>createBlob\<close> stores
  \<open>32768\<close> for it, which wraps to \<open>-32768\<close> (bytes \<open>00 80\<close>), and \<^verbatim>\<open>decodeAudioData\<close>
  reads it back as \<open>-1\<close>.
\<close>

theorem createBlob_full_scale:
  "\<exists>payload buffer. createBlob [1] = Inr payload
      \<and> decode (data payload) = Inr [0, 128]
      \<and> decodeAudioData [0, 128] 24000 1 = Inr buffer
      \<and> channelData buffer = [[- 1]]"
proof -
  have w: "to_int16 (1 * 32768) = (32768 :: i16)"
    by (simp add: to_int16_def js_trunc_def)
  have b: "uint8_view [32768 :: i16] = [0, 128]"
    by (simp add: uint8_view_def int16_bytes_def drop_bit_eq_div)
  obtain payload where p: "createBlob [1] = Inr payload"
    by (simp add: createBlob_eq)
  have d: "decode (data payload) = Inr [0, 128]"
    using decode_createBlob [OF p] w b by simp
  have v: "int16_view [0, 128 :: u8] = Inr [32768]"
    using int16_view_uint8_view [of "[32768]"] b by simp
  have s: "sint (32768 :: i16) = - 32768"
    by simp
  have "decodeAudioData [0, 128] 24000 1 =
          Inr \<lparr>numberOfChannels = 1, frames = 1, sampleRate = 24000, channelData = [[- 1]]\<rparr>"
    by (simp add: decodeAudioData_def v createBuffer_def s)
  with p d show ?thesis by auto
qed

text \<open>
  Below full scale the round trip is within the quantisation step: for a non-empty
  sequence of samples in \<open>[-1, 1)\<close>, decoding the payload at one channel gives samples
  that differ from the originals by less than \<open>1 / 32768\<close>.
\<close>

lemma js_trunc_close: "\<bar>real_of_int (js_trunc y) - y\<bar> < 1"
  unfolding js_trunc_def by (cases "0 \<le> y") (simp_all, linarith+)

lemma js_trunc_range:
  assumes "- 32768 \<le> y" "y < 32768"
  shows "- 32768 \<le> js_trunc y" "js_trunc y < 32768"
proof -
  show "- 32768 \<le> js_trunc y"
    using assms unfolding js_trunc_def by (simp add: le_floor_iff le_ceiling_iff)
  show "js_trunc y < 32768"
    using assms unfolding js_trunc_def by (auto simp: floor_less_iff ceiling_less_iff)
qed

lemma sample_roundtrip:
  assumes "- 1 \<le> x" "x < 1"
  shows "\<bar>real_of_int (sint (to_int16 (x * 32768))) / 32768 - x\<bar> < 1 / 32768"
proof -
  let ?t = "js_trunc (x * 32768)"
  have r: "- 32768 \<le> ?t" "?t < 32768"
    using js_trunc_range [of "x * 32768"] assms by simp_all
  then have "(?t + 32768) mod 65536 = ?t + 32768"
    by simp
  then have "sint (to_int16 (x * 32768)) = ?t"
    by (simp add: to_int16_def sint_int16)
  moreover have "\<bar>real_of_int ?t - x * 32768\<bar> < 1"
    by (rule js_trunc_close)
  ultimately show ?thesis
    by (simp add: field_simps abs_less_iff)
qed

lemma decode_mono:
  assumes "ws \<noteq> []"
  shows "decodeAudioData (uint8_view ws) rate 1 =
     Inr \<lparr>numberOfChannels = 1, frames = length ws, sampleRate = rate,
          channelData = [map (\<lambda>w. real_of_int (sint w) / 32768) ws]\<rparr>"
proof -
  have "map (\<lambda>i. real_of_int (sint (ws ! i)) / 32768) [0..<length ws]
          = map (\<lambda>w. real_of_int (sint w) / 32768) ws"
    by (rule nth_equalityI) simp_all
  with assms show ?thesis
    by (simp add: decodeAudioData_def int16_view_uint8_view createBuffer_def)
qed

lemma list_all2_map_self: "list_all (\<lambda>x. P x (f x)) xs \<Longrightarrow> list_all2 P xs (map f xs)"
  by (induction xs) simp_all

lemma pcm_roundtrip_below_full_scale:
  assumes "samples \<noteq> []" and "list_all (\<lambda>x. - 1 \<le> x \<and> x < 1) samples"
  shows "\<exists>payload bytes buffer out. createBlob samples = Inr payload
      \<and> decode (data payload) = Inr bytes
      \<and> decodeAudioData bytes rate 1 = Inr buffer
      \<and> channelData buffer = [out]
      \<and> list_all2 (\<lambda>x y. \<bar>y - x\<bar> < 1 / 32768) samples out"
proof -
  obtain payload where p: "createBlob samples = Inr payload"
    by (simp add: createBlob_eq)
  let ?ws = "map (\<lambda>x. to_int16 (x * 32768)) samples"
  let ?out = "map (\<lambda>x. real_of_int (sint (to_int16 (x * 32768))) / 32768) samples"
  have ne: "?ws \<noteq> []" using assms(1) by simp
  have out: "map (\<lambda>w. real_of_int (sint w) / 32768) ?ws = ?out"
    by (simp add: o_def)
  have "list_all (\<lambda>x. \<bar>real_of_int (sint (to_int16 (x * 32768))) / 32768 - x\<bar> < 1 / 32768)
          samples"
    unfolding list_all_iff using assms(2) [unfolded list_all_iff] sample_roundtrip by blast
  then have close: "list_all2 (\<lambda>x y. \<bar>y - x\<bar> < 1 / 32768) samples ?out"
    by (rule list_all2_map_self)
  have "decodeAudioData (uint8_view ?ws) rate 1 =
     Inr \<lparr>numberOfChannels = 1, frames = length ?ws, sampleRate = rate, channelData = [?out]\<rparr>"
    using decode_mono [OF ne, of rate] unfolding out .
  then have "\<exists>buffer. decodeAudioData (uint8_view ?ws) rate 1 = Inr buffer
      \<and> channelData buffer = [?out]"
    by simp
  with p decode_createBlob [OF p] close show ?thesis
    by blast
qed

section \<open>What the handlers compute\<close>

lemma stop_loop:
  "forEach (\<lambda>source. try_catch (source_stop p source) (\<lambda>e. console_write Warn)) xs s =
     (Normal, s\<lparr>effects := effects s @ map SourceStop xs,
                 console := console s @ map (\<lambda>_. Warn) (filter (stopThrows p) xs)\<rparr>)"
  by (induction xs arbitrary: s)
     (simp_all add: try_catch_def source_stop_def perform_def update_def throw_def skip_def
        console_write_def)

lemma stopAllAudioPlayback_eq:
  "stopAllAudioPlayback p s =
     (Normal, s\<lparr>effects := effects s @ map SourceStop (sourcesRef s),
                 console := console s @ map (\<lambda>_. Warn) (filter (stopThrows p) (sourcesRef s)),
                 sourcesRef := [], nextStartTimeRef := 0, isAssistantSpeaking := False\<rparr>)"
  by (simp add: stopAllAudioPlayback_def stop_loop update_def)

lemma handleApiError_eq:
  "handleApiError error context s =
     (Normal,
      if is_abort error then
        s\<lparr>console := console s @ [Err, Debug], textError := None, liveError := None,
          isLoadingText := False, liveApiConnecting := False\<rparr>
      else
        s\<lparr>console := console s @ [Err],
          textError := Some (error_message error context),
          liveApiConnecting := False,
          liveError := Some (error_message error context),
          effects := effects s @
            (if js_includes (error_message error context)
                  (js_str ''Requested entity was not found.'')
             then [Alert, OpenSelectKey] else [])\<rparr>)"
  by (simp add: handleApiError_def console_write_def update_def perform_def skip_def Let_def)

lemma stopAudioVisualization_eq:
  "stopAudioVisualization s =
     (Normal, s\<lparr>effects := effects s @
                   (case animationFrameIdRef s of
                      Some i \<Rightarrow> if i \<noteq> 0 then [CancelAnimationFrame i] else []
                    | None \<Rightarrow> []),
                 animationFrameIdRef :=
                   (case animationFrameIdRef s of
                      Some i \<Rightarrow> if i \<noteq> 0 then None else Some i
                    | None \<Rightarrow> None),
                 canvasRef := map_option (\<lambda>_. True) (canvasRef s)\<rparr>)"
  by (simp add: stopAudioVisualization_def perform_def update_def skip_def split: option.splits)

lemma stopLiveConversation_eq:
  "stopLiveConversation p s =
     (Normal,
      s\<lparr>thenCallbacks := thenCallbacks s @
           (case sessionPromiseRef s of Some promise \<Rightarrow> [(promise, Close)] | None \<Rightarrow> []),
        sessionPromiseRef := None,
        mediaStreamRef := None,
        scriptProcessorRef := None,
        analyserRef := None,
        audioContextRef := None,
        effects := effects s
          @ (case mediaStreamRef s of Some stream \<Rightarrow> [TrackStop stream] | None \<Rightarrow> [])
          @ (case scriptProcessorRef s of
               Some node \<Rightarrow> [Disconnect node, ClearAudioProcess node] | None \<Rightarrow> [])
          @ (case analyserRef s of Some node \<Rightarrow> [Disconnect node] | None \<Rightarrow> [])
          @ (case audioContextRef s of Some ctx \<Rightarrow> [ContextClose ctx] | None \<Rightarrow> [])
          @ map SourceStop (sourcesRef s)
          @ (case animationFrameIdRef s of
               Some i \<Rightarrow> if i \<noteq> 0 then [CancelAnimationFrame i] else []
             | None \<Rightarrow> []),
        console := console s @ map (\<lambda>_. Warn) (filter (stopThrows p) (sourcesRef s)),
        sourcesRef := [],
        nextStartTimeRef := 0,
        isAssistantSpeaking := False,
        animationFrameIdRef :=
          (case animationFrameIdRef s of
             Some i \<Rightarrow> if i \<noteq> 0 then None else Some i
           | None \<Rightarrow> None),
        canvasRef := map_option (\<lambda>_. True) (canvasRef s),
        isLiveApiConnected := False,
        liveApiConnecting := False\<rparr>)"
  by (simp add: stopLiveConversation_def stop_statements_def stopAllAudioPlayback_eq
        stopAudioVisualization_eq perform_def update_def skip_def split: option.splits)

section \<open>What \<open>onmessage\<close> computes\<close>

lemma getOutputAudioContext_eq:
  "getOutputAudioContext s =
     (Normal, case outputAudioContextRef s of
                None \<Rightarrow> s\<lparr>outputAudioContextRef := Some (fresh s), fresh := Suc (fresh s),
                           effects := effects s @ [ContextResume (fresh s)]\<rparr>
              | Some c \<Rightarrow> s)"
  by (simp add: getOutputAudioContext_def perform_def update_def skip_def split: option.splits)

lemma update_transcriptions_eq:
  "update_transcriptions message s =
     (Normal,
      s\<lparr>liveOutputTranscription :=
          (if turnComplete message then []
           else liveOutputTranscription s @
                (case outputTranscription message of
                   Some t \<Rightarrow> transcription_text t | None \<Rightarrow> [])),
        liveInputTranscription :=
          (if turnComplete message then []
           else liveInputTranscription s @
                (case inputTranscription message of
                   Some t \<Rightarrow> transcription_text t | None \<Rightarrow> [])),
        console := console s @ (if turnComplete message then [Debug] else [])\<rparr>)"
  by (simp add: update_transcriptions_def update_def skip_def console_write_def
        split: option.splits)

lemma handle_interrupted_eq:
  "handle_interrupted p message s =
     (Normal,
      if interrupted message then
        s\<lparr>effects := effects s @ map SourceStop (sourcesRef s),
          console := console s @ map (\<lambda>_. Warn) (filter (stopThrows p) (sourcesRef s)),
          sourcesRef := [], isAssistantSpeaking := False, nextStartTimeRef := 0\<rparr>
      else s)"
  by (simp add: handle_interrupted_def stop_loop update_def skip_def)

lemma thrown_of_not_abort: "\<not> is_abort (thrown_of p e)"
  by (cases e) (simp_all add: is_abort_def thrown_of_def error_name_def js_str_def)

lemma error_message_thrown_of: "error_message (thrown_of p e) context = errorText p e"
  by (cases e) (simp_all add: error_message_def thrown_of_def)

lemma process_audio_none:
  "\<not> has_payload message \<Longrightarrow> process_audio p message s = (Normal, s)"
  by (auto simp: process_audio_def has_payload_def skip_def split: option.splits)

lemma process_audio_chunk:
  assumes "inlineData message = Some b64" "b64 \<noteq> []" "decode_chunk b64 = Inr buffer"
  shows "process_audio p message s =
     (Normal,
      (snd (getOutputAudioContext s))
       \<lparr>nextStartTimeRef :=
          round_double (max (nextStartTimeRef s) (currentTime p) + duration buffer),
        fresh := Suc (fresh (snd (getOutputAudioContext s))),
        endedListeners := endedListeners s
           @ [(fresh (snd (getOutputAudioContext s)), interrupted message)],
        effects := effects (snd (getOutputAudioContext s))
           @ [SourceStart (fresh (snd (getOutputAudioContext s)))
                (max (nextStartTimeRef s) (currentTime p)) (duration buffer)],
        sourcesRef := set_add (fresh (snd (getOutputAudioContext s))) (sourcesRef s),
        isAssistantSpeaking := True\<rparr>)"
  using assms
  by (simp add: process_audio_def getOutputAudioContext_eq schedule_chunk_def try_catch_def
        update_def perform_def Let_def split: option.splits)

lemma process_audio_failure:
  assumes "inlineData message = Some b64" "b64 \<noteq> []" "decode_chunk b64 = Inl e"
  shows "process_audio p message s =
     (Normal,
      (snd (getOutputAudioContext s))
       \<lparr>nextStartTimeRef := max (nextStartTimeRef s) (currentTime p),
        console := console s @ [Err],
        textError := Some (errorText p e),
        liveApiConnecting := False,
        liveError := Some (errorText p e),
        effects := effects (snd (getOutputAudioContext s)) @
            (if js_includes (errorText p e) (js_str ''Requested entity was not found.'')
             then [Alert, OpenSelectKey] else []),
        isAssistantSpeaking := False\<rparr>)"
  using assms
  by (simp add: process_audio_def getOutputAudioContext_eq schedule_chunk_def try_catch_def
        handleApiError_eq thrown_of_not_abort error_message_thrown_of
        update_def throw_def split: option.splits)

lemma onmessage_eq:
  "\<not> suicidal_input p message \<Longrightarrow>
   onmessage p message s =
     block [update_transcriptions message, process_audio p message,
            handle_interrupted p message] (s\<lparr>console := console s @ [Log]\<rparr>)"
  by (simp add: onmessage_def console_write_def update_def
        split: prod.splits completion.splits)


section \<open>Interruption and stop\<close>





section \<open>Teardown\<close>

lemma createBlob_total: "\<exists>payload. createBlob samples = Inr payload"
  by (simp add: createBlob_eq)

lemma onaudioprocess_null:
  "sessionPromiseRef s = None \<Longrightarrow> onaudioprocess p inputData s = (Normal, s)"
  using createBlob_total [of inputData]
  by (auto simp: onaudioprocess_def skip_def)

lemma stop_prefix_handle:
  "2 \<le> n \<Longrightarrow> sessionPromiseRef (snd (block (take n (stop_statements p)) s)) = None"
proof -
  assume "2 \<le> n"
  then consider "n = 2" | "n = 3" | "n = 4" | "n = 5" | "n = 6" | "n = 7" | "n = 8" | "n = 9"
    | "10 \<le> n" by linarith
  then show ?thesis
  proof cases
    case 9
    then have "take n (stop_statements p) = stop_statements p"
      by (simp add: stop_statements_def)
    then show ?thesis
      using stopLiveConversation_eq [of p s] by (simp add: stopLiveConversation_def)
  qed (simp_all add: stop_statements_def stopAllAudioPlayback_eq stopAudioVisualization_eq
         perform_def update_def skip_def split: option.splits)
qed

lemma stop_prefix_effects:
  "effects (snd (block (take 2 (stop_statements p)) s)) = effects s"
  by (simp add: stop_statements_def update_def skip_def split: option.splits)

text \<open>
  C3. \<^verbatim>\<open>stopLiveConversation\<close> completes normally with the session-promise ref null, and
  a capture callback that fires on the state it leaves completes normally and changes
  nothing: no callback is registered on any promise, so no frame reaches the transport.
  Within \<^verbatim>\<open>stopLiveConversation\<close> the ref is null after the first two statements, which
  perform no effect on a resource (the first only registers the close request on the
  promise), and it stays null after every later statement.
\<close>

theorem post_teardown_send_is_noop:
  "\<exists>s1. stopLiveConversation p s = (Normal, s1)
      \<and> sessionPromiseRef s1 = None
      \<and> onaudioprocess p' inputData s1 = (Normal, s1)
      \<and> effects (snd (block (take 2 (stop_statements p)) s)) = effects s
      \<and> (\<forall>n. 2 \<le> n \<longrightarrow>
            sessionPromiseRef (snd (block (take n (stop_statements p)) s)) = None)"
proof -
  let ?s1 = "snd (stopLiveConversation p s)"
  have s1: "stopLiveConversation p s = (Normal, ?s1)"
    by (simp add: stopLiveConversation_eq)
  have null: "sessionPromiseRef ?s1 = None"
    by (simp add: stopLiveConversation_eq)
  show ?thesis
    using s1 null onaudioprocess_null [OF null] stop_prefix_effects stop_prefix_handle
    by blast
qed

lemma stop_when_idle:
  assumes "sessionPromiseRef s = None" "mediaStreamRef s = None" "scriptProcessorRef s = None"
    "analyserRef s = None" "audioContextRef s = None" "sourcesRef s = []"
    "animationFrameIdRef s = None \<or> animationFrameIdRef s = Some 0"
    "canvasRef s \<noteq> Some False" "nextStartTimeRef s = 0" "\<not> isAssistantSpeaking s"
    "\<not> isLiveApiConnected s" "\<not> liveApiConnecting s"
  shows "stopLiveConversation p s = (Normal, s)"
proof -
  have c: "map_option (\<lambda>_. True) (canvasRef s) = canvasRef s"
    using assms(8) by (cases "canvasRef s") auto
  have a: "(case animationFrameIdRef s of
             Some i \<Rightarrow> if i \<noteq> 0 then None else Some i
           | None \<Rightarrow> None) = animationFrameIdRef s"
    using assms(7) by auto
  have e: "(case animationFrameIdRef s of
               Some i \<Rightarrow> if i \<noteq> 0 then [CancelAnimationFrame i] else []
             | None \<Rightarrow> []) = []"
    using assms(7) by auto
  show ?thesis
    unfolding stopLiveConversation_eq c a e
    using assms by (cases s) simp
qed

text \<open>
  C4. From any state, \<^verbatim>\<open>stopLiveConversation\<close> completes normally, and a second call on
  the state it leaves completes normally and leaves that same state (no further effect,
  no further callback, no console output).
\<close>

theorem stop_idempotent:
  "\<exists>s1. stopLiveConversation p s = (Normal, s1) \<and> stopLiveConversation p' s1 = (Normal, s1)"
proof -
  let ?s1 = "snd (stopLiveConversation p s)"
  have s1: "stopLiveConversation p s = (Normal, ?s1)"
    by (simp add: stopLiveConversation_eq)
  have frame: "animationFrameIdRef ?s1 =
      (case animationFrameIdRef s of
         Some i \<Rightarrow> if i \<noteq> 0 then None else Some i
       | None \<Rightarrow> None)"
    by (simp add: stopLiveConversation_eq)
  have canvas: "canvasRef ?s1 = map_option (\<lambda>_. True) (canvasRef s)"
    by (simp add: stopLiveConversation_eq)
  have "stopLiveConversation p' ?s1 = (Normal, ?s1)"
  proof (rule stop_when_idle)
    show "animationFrameIdRef ?s1 = None \<or> animationFrameIdRef ?s1 = Some 0"
      unfolding frame by (simp split: option.splits)
    show "canvasRef ?s1 \<noteq> Some False"
      unfolding canvas by (cases "canvasRef s") simp_all
  qed (simp_all add: stopLiveConversation_eq)
  with s1 show ?thesis by blast
qed

section \<open>Errors\<close>

lemma scheduled_append: "scheduled (xs @ ys) = scheduled xs @ scheduled ys"
  by (induction xs rule: scheduled.induct) simp_all

text \<open>
  C9. When the payload of a message fails to decode (and the message does not trigger
  the stop on suicidal input), \<^verbatim>\<open>onmessage\<close> completes normally: the error is written to
  the console and becomes the visible error message; the session promise, the callbacks
  registered on it, the microphone stream, the capture node, the analyser, the input
  context and the connected flag are unchanged, no capture resource is released and no
  source is started; unless the message is also an interruption, the sources already
  playing stay in the set.
\<close>

theorem decode_failure_keeps_session:
  assumes "inlineData message = Some b64" and "b64 \<noteq> []" and "decode_chunk b64 = Inl e"
    and "\<not> suicidal_input p message"
  shows "\<exists>s'. onmessage p message s = (Normal, s')
      \<and> sessionPromiseRef s' = sessionPromiseRef s
      \<and> thenCallbacks s' = thenCallbacks s
      \<and> mediaStreamRef s' = mediaStreamRef s
      \<and> scriptProcessorRef s' = scriptProcessorRef s
      \<and> analyserRef s' = analyserRef s
      \<and> audioContextRef s' = audioContextRef s
      \<and> isLiveApiConnected s' = isLiveApiConnected s
      \<and> filter releases (effects s') = filter releases (effects s)
      \<and> scheduled (effects s') = scheduled (effects s)
      \<and> liveError s' = Some (errorText p e)
      \<and> Err \<in> set (drop (length (console s)) (console s'))
      \<and> (interrupted message \<or> sourcesRef s' = sourcesRef s)"
proof -
  have stops: "filter releases (map SourceStop xs) = []" "scheduled (map SourceStop xs) = []" for xs
    by (induction xs) simp_all
  show ?thesis
    using assms(4)
    by (simp add: onmessage_eq update_transcriptions_eq process_audio_failure [OF assms(1-3)]
          handle_interrupted_eq getOutputAudioContext_eq scheduled_append stops
          split: option.splits)
qed

text \<open>
  C10. For every thrown value that is not a \<^verbatim>\<open>DOMException\<close> named \<^verbatim>\<open>AbortError\<close>,
  \<^verbatim>\<open>handleApiError\<close> sets the text error and the live error to the same message and
  clears the live connecting flag, whatever the context string.
\<close>

theorem handleApiError_sets_both_errors:
  "\<not> is_abort error \<Longrightarrow>
   \<exists>s'. handleApiError error context s = (Normal, s')
      \<and> textError s' = Some (error_message error context)
      \<and> liveError s' = Some (error_message error context)
      \<and> \<not> liveApiConnecting s'"
  by (simp add: handleApiError_eq)

section \<open>Abnormal close\<close>

lemma onclose_eq:
  "onclose e s =
     (Normal,
      s\<lparr>console := console s @ [Debug], isLiveApiConnected := False, liveApiConnecting := False,
        liveError := (if code e \<noteq> 1000
                      then Some (js_str ''Live API closed unexpectedly: Code '' @
                                 decimal (unat (code e)) @ js_str '', Reason: '' @ reason e)
                      else liveError s),
        liveInputTranscription := [], liveOutputTranscription := [],
        isAssistantSpeaking := False\<rparr>)"
  by (simp add: onclose_def console_write_def update_def skip_def)

text \<open>
  C5. The close handler at close code 1006 on a connected conversation: the error
  message names the code, but the handler releases nothing; the microphone stream, the
  capture node, the analyser, the input context, the session promise and the playing
  source all stay as they were and no effect is performed. The error handler, on the
  same state, stops the tracks, disconnects the nodes, closes the context and stops the
  source.
\<close>

theorem onclose_abnormal_releases_nothing:
  "onclose \<lparr>code = 1006, reason = []\<rparr>
     (initial_state\<lparr>isLiveApiConnected := True, isAssistantSpeaking := True,
        audioContextRef := Some 1, mediaStreamRef := Some 2, sessionPromiseRef := Some 3,
        scriptProcessorRef := Some 4, analyserRef := Some 5, sourcesRef := [6]\<rparr>)
   = (Normal,
      initial_state\<lparr>liveError := Some (js_str ''Live API closed unexpectedly: Code 1006, Reason: ''),
        audioContextRef := Some 1, mediaStreamRef := Some 2, sessionPromiseRef := Some 3,
        scriptProcessorRef := Some 4, analyserRef := Some 5, sourcesRef := [6],
        console := [Debug]\<rparr>)
   \<and> effects (snd (onerror (browser 0 (\<lambda>h. False)) None
        (initial_state\<lparr>isLiveApiConnected := True, isAssistantSpeaking := True,
           audioContextRef := Some 1, mediaStreamRef := Some 2, sessionPromiseRef := Some 3,
           scriptProcessorRef := Some 4, analyserRef := Some 5, sourcesRef := [6]\<rparr>)))
     = [TrackStop 2, Disconnect 4, ClearAudioProcess 4, Disconnect 5, ContextClose 1,
        SourceStop 6]"
proof -
  have d: "decimal 1006 = js_str ''1006''"
    by (simp add: decimal.simps js_str_def)
  show ?thesis
    by (simp add: onclose_eq d onerror_def console_write_def update_def
          stopLiveConversation_eq initial_state_def js_str_def)
qed

section \<open>The playback schedule\<close>

lemma duration_nonneg: "0 \<le> sampleRate buffer \<Longrightarrow> 0 \<le> duration buffer"
  by (simp add: duration_def round_double_nonneg)

lemma decode_chunk_duration: "decode_chunk b64 = Inr buffer \<Longrightarrow> 0 \<le> duration buffer"
proof -
  assume "decode_chunk b64 = Inr buffer"
  then have "sampleRate buffer = 24000"
    by (auto simp: decode_chunk_def decodeAudioData_def createBuffer_def Let_def
          split: sum.splits if_splits)
  then show ?thesis by (simp add: duration_nonneg)
qed

lemma chunk_of_duration: "chunk_of message = Some buffer \<Longrightarrow> 0 \<le> duration buffer"
  by (auto simp: chunk_of_def decode_chunk_duration split: option.splits if_splits sum.splits)

lemma onmessage_calm:
  assumes "calm (MessageArrives p message)"
  shows "\<exists>s'. onmessage p message s = (Normal, s')
      \<and> scheduled (effects s') =
          scheduled (effects s)
          @ double_starts (nextStartTimeRef s) (arrivals [MessageArrives p message])
      \<and> (\<forall>rest. double_starts (nextStartTimeRef s') rest =
            drop (length (double_starts (nextStartTimeRef s)
                            (arrivals [MessageArrives p message])))
              (double_starts (nextStartTimeRef s)
                 (arrivals [MessageArrives p message] @ rest)))"
proof (cases "has_payload message")
  case False
  with assms show ?thesis
    by (simp add: onmessage_eq update_transcriptions_eq process_audio_none
          handle_interrupted_eq)
next
  case True
  then obtain b64 where b: "inlineData message = Some b64" "b64 \<noteq> []"
    by (auto simp: has_payload_def split: option.splits)
  show ?thesis
  proof (cases "decode_chunk b64")
    case (Inl e)
    with b have c: "chunk_of message = None"
      by (simp add: chunk_of_def)
    show ?thesis
      using assms True c
      by (simp add: onmessage_eq update_transcriptions_eq process_audio_failure [OF b Inl]
            handle_interrupted_eq getOutputAudioContext_eq scheduled_append
            split: option.splits)
  next
    case (Inr buffer)
    with b have c: "chunk_of message = Some buffer"
      by (simp add: chunk_of_def)
    show ?thesis
      using assms True c
      by (simp add: onmessage_eq update_transcriptions_eq process_audio_chunk [OF b Inr]
            handle_interrupted_eq getOutputAudioContext_eq scheduled_append
            split: option.splits)
  qed
qed

lemma onended_frame:
  "\<exists>s'. onended source s = (Normal, s') \<and> effects s' = effects s
      \<and> nextStartTimeRef s' = nextStartTimeRef s"
  by (simp add: onended_def update_def skip_def split: option.splits)

lemma onaudioprocess_frame:
  "\<exists>s'. onaudioprocess p inputData s = (Normal, s') \<and> effects s' = effects s
      \<and> nextStartTimeRef s' = nextStartTimeRef s"
  using createBlob_total [of inputData]
  by (auto simp: onaudioprocess_def update_def skip_def split: option.splits)

lemma fire_calm:
  assumes "calm ev"
  shows "\<exists>s'. fire ev s = (Normal, s')
      \<and> scheduled (effects s') =
          scheduled (effects s) @ double_starts (nextStartTimeRef s) (arrivals [ev])
      \<and> (\<forall>rest. double_starts (nextStartTimeRef s') rest =
            drop (length (double_starts (nextStartTimeRef s) (arrivals [ev])))
              (double_starts (nextStartTimeRef s) (arrivals [ev] @ rest)))"
proof (cases ev)
  case (MessageArrives p message)
  with assms have "calm (MessageArrives p message)" by simp
  from onmessage_calm [OF this, of s] MessageArrives show ?thesis
    by simp
next
  case (SourceEnds source)
  then show ?thesis
    using onended_frame [of source s] by auto
next
  case (FrameCaptured p inputData)
  then show ?thesis
    using onaudioprocess_frame [of p inputData s] by auto
qed

lemma arrivals_Cons: "arrivals (ev # evs) = arrivals [ev] @ arrivals evs"
  by (cases ev) simp_all

lemma double_starts_split:
  "double_starts cursor (xs @ ys) =
     double_starts cursor xs
     @ drop (length (double_starts cursor xs)) (double_starts cursor (xs @ ys))"
  by (induction cursor xs rule: double_starts.induct) simp_all

lemma run_calm:
  "list_all calm evs \<Longrightarrow>
   \<exists>s'. forEach fire evs s = (Normal, s')
      \<and> scheduled (effects s') =
          scheduled (effects s) @ double_starts (nextStartTimeRef s) (arrivals evs)"
proof (induction evs arbitrary: s)
  case Nil
  then show ?case by simp
next
  case (Cons ev evs)
  from Cons.prems have ev: "calm ev" and evs: "list_all calm evs" by simp_all
  from fire_calm [OF ev, of s] obtain s1 where
    s1: "fire ev s = (Normal, s1)"
    and sch1: "scheduled (effects s1) =
        scheduled (effects s) @ double_starts (nextStartTimeRef s) (arrivals [ev])"
    and rest: "double_starts (nextStartTimeRef s1) (arrivals evs) =
        drop (length (double_starts (nextStartTimeRef s) (arrivals [ev])))
          (double_starts (nextStartTimeRef s) (arrivals [ev] @ arrivals evs))"
    by blast
  from Cons.IH [OF evs, of s1] obtain s' where
    s': "forEach fire evs s1 = (Normal, s')"
    and sch': "scheduled (effects s') =
        scheduled (effects s1) @ double_starts (nextStartTimeRef s1) (arrivals evs)"
    by blast
  have "forEach fire (ev # evs) s = (Normal, s')"
    using s1 s' by simp
  moreover have "scheduled (effects s') =
      scheduled (effects s) @ double_starts (nextStartTimeRef s) (arrivals (ev # evs))"
    unfolding sch' sch1 rest arrivals_Cons [of ev evs]
    using double_starts_split [of "nextStartTimeRef s" "arrivals [ev]" "arrivals evs"]
    by simp
  ultimately show ?case by blast
qed

lemma is_double_round [simp]: "is_double (round_double x)"
  by (simp add: is_double_def round_double_idem)

lemma is_double_max: "is_double a \<Longrightarrow> is_double b \<Longrightarrow> is_double (max a b)"
  by (simp add: max_def)

lemma double_sum_above: "is_double t \<Longrightarrow> 0 \<le> d \<Longrightarrow> t \<le> round_double (t + d)"
proof -
  assume t: "is_double t" and "0 \<le> d"
  then have "round_double t \<le> round_double (t + d)"
    by (intro round_double_mono) simp
  with t show ?thesis by (simp add: is_double_def)
qed

lemma double_sum_within:
  "x - max (\<bar>x\<bar> / 2 ^ 53) (1 / 2 ^ 1075) \<le> round_double x"
  using round_double_tolerance [of x] by linarith

lemma double_starts_lower:
  "(t, d) \<in> set (double_starts cursor xs) \<Longrightarrow> is_double cursor \<Longrightarrow>
   list_all (\<lambda>(clock, d). is_double clock \<and> (case d of Some d \<Rightarrow> 0 \<le> d | None \<Rightarrow> True)) xs \<Longrightarrow>
   cursor \<le> t"
proof (induction cursor xs rule: double_starts.induct)
  case (1 cursor)
  then show ?case by simp
next
  case (2 cursor clock d' rest)
  from "2.prems" have d': "0 \<le> d'" and clock: "is_double clock"
    and rest: "list_all (\<lambda>(clock, d). is_double clock
                 \<and> (case d of Some d \<Rightarrow> 0 \<le> d | None \<Rightarrow> True)) rest"
    by simp_all
  have start: "is_double (max cursor clock)"
    using "2.prems"(2) clock by (rule is_double_max)
  from "2.prems"(1) consider "t = max cursor clock"
    | "(t, d) \<in> set (double_starts (round_double (max cursor clock + d')) rest)"
    by auto
  then show ?case
  proof cases
    case 1
    then show ?thesis by simp
  next
    case 2
    from "2.IH" [OF this is_double_round rest]
    have "round_double (max cursor clock + d') \<le> t" .
    moreover have "max cursor clock \<le> round_double (max cursor clock + d')"
      using start d' by (rule double_sum_above)
    ultimately show ?thesis by simp
  qed
next
  case (3 cursor clock rest)
  from "3.prems" have clock: "is_double clock"
    and rest: "list_all (\<lambda>(clock, d). is_double clock
                 \<and> (case d of Some d \<Rightarrow> 0 \<le> d | None \<Rightarrow> True)) rest"
    by simp_all
  have "is_double (max cursor clock)"
    using "3.prems"(2) clock by (rule is_double_max)
  from "3.IH" [OF _ this rest] "3.prems"(1) have "max cursor clock \<le> t" by simp
  then show ?case by simp
qed

lemma back_to_back_double_starts:
  "is_double cursor \<Longrightarrow>
   list_all (\<lambda>(clock, d). is_double clock \<and> (case d of Some d \<Rightarrow> 0 \<le> d | None \<Rightarrow> True)) xs \<Longrightarrow>
   back_to_back (double_starts cursor xs)"
proof (induction cursor xs rule: double_starts.induct)
  case (1 cursor)
  then show ?case by simp
next
  case (2 cursor clock d rest)
  from "2.prems" have d: "0 \<le> d" and clock: "is_double clock"
    and rest: "list_all (\<lambda>(clock, d). is_double clock
                 \<and> (case d of Some d \<Rightarrow> 0 \<le> d | None \<Rightarrow> True)) rest"
    by simp_all
  let ?t = "max cursor clock"
  let ?tail = "double_starts (round_double (?t + d)) rest"
  have start: "is_double ?t"
    using "2.prems"(1) clock by (rule is_double_max)
  have tail: "back_to_back ?tail" using "2.IH" [OF is_double_round rest] .
  show ?case
  proof (cases ?tail)
    case Nil
    then show ?thesis by simp
  next
    case (Cons x xs)
    obtain t2 d2 where x: "x = (t2, d2)" by (cases x)
    with Cons have "(t2, d2) \<in> set ?tail" by simp
    from double_starts_lower [OF this is_double_round rest]
    have sum: "round_double (?t + d) \<le> t2" .
    moreover have "?t \<le> round_double (?t + d)"
      using start d by (rule double_sum_above)
    moreover have "?t + d - max (\<bar>?t + d\<bar> / 2 ^ 53) (1 / 2 ^ 1075) \<le> round_double (?t + d)"
      by (rule double_sum_within)
    ultimately have "?t \<le> t2" "round_double (?t + d) \<le> t2"
      "?t + d - max (\<bar>?t + d\<bar> / 2 ^ 53) (1 / 2 ^ 1075) \<le> t2"
      by linarith+
    with tail Cons x show ?thesis
      by (simp del: max.bounded_iff)
  qed
next
  case (3 cursor clock rest)
  from "3.prems" have clock: "is_double clock"
    and rest: "list_all (\<lambda>(clock, d). is_double clock
                 \<and> (case d of Some d \<Rightarrow> 0 \<le> d | None \<Rightarrow> True)) rest"
    by simp_all
  have "is_double (max cursor clock)"
    using "3.prems"(1) clock by (rule is_double_max)
  from "3.IH" [OF this rest] show ?case by simp
qed

lemma arrivals_doubles:
  "list_all double_clock evs \<Longrightarrow>
   list_all (\<lambda>(clock, d). is_double clock \<and> (case d of Some d \<Rightarrow> 0 \<le> d | None \<Rightarrow> True))
     (arrivals evs)"
proof (induction evs)
  case Nil
  then show ?case by simp
next
  case (Cons ev evs)
  then show ?case
    by (cases ev) (auto split: option.splits dest: chunk_of_duration)
qed

text \<open>
  C1. Over any run of events (messages, sources ending, capture frames) in which no
  message is an interruption or triggers a stop, each handler completes normally and the
  sources started during the run are, in arrival order, those of the rule as the code
  computes it: each chunk starts at the maximum of the cursor and the output clock, and
  the cursor then advances to the double nearest to that start plus the chunk's
  duration. When the cursor and the clock readings are doubles, the start times are
  non-decreasing, and each chunk starts no earlier than the double sum of the previous
  start and duration, hence no earlier than the exact sum less the rounding error, which
  is at most the larger of \<open>2^-53\<close> times the sum and \<open>2^-1075\<close>.
\<close>

theorem chunks_are_scheduled_back_to_back:
  assumes "list_all calm evs" and "list_all double_clock evs"
    and "is_double (nextStartTimeRef s)"
  shows "\<exists>s'. forEach fire evs s = (Normal, s')
      \<and> drop (length (scheduled (effects s))) (scheduled (effects s'))
          = double_starts (nextStartTimeRef s) (arrivals evs)
      \<and> back_to_back (double_starts (nextStartTimeRef s) (arrivals evs))"
  using run_calm [OF assms(1), of s]
    back_to_back_double_starts [OF assms(3) arrivals_doubles [OF assms(2)]]
  by auto

section \<open>Instances\<close>

lemma silence_chunk:
  "decode_chunk (js_str ''AAA='') =
     Inr \<lparr>numberOfChannels = 1, frames = 1, sampleRate = 24000, channelData = [[0]]\<rparr>"
  by (simp add: decode_chunk_def decode_def atob_def strip_padding_def drop_equals_def
        ascii_whitespace_def b64_index_def js_str_def decodeAudioData_def int16_view_def
        createBuffer_def Let_def)

lemma garbage_chunk: "decode_chunk (js_str ''!'') = Inl InvalidCharacterError"
  by (simp add: decode_chunk_def decode_def atob_def strip_padding_def drop_equals_def
        ascii_whitespace_def b64_index_def js_str_def Let_def)

lemma greeting_is_calm:
  "\<not> suicidal_input (browser clock failing)
       \<lparr>inputTranscription = Some (Some (js_str ''Hi'')), outputTranscription = None,
        turnComplete = False, interrupted = flag, inlineData = payload\<rparr>"
  by (simp add: suicidal_input_def checkSuicidalIntent_def browser_def ascii_toLowerCase_def
        suicideKeywords_def js_str_def)

theorem base64_roundtrip_witness:
  "encode [77, 97, 110] = Inr (js_str ''TWFu'') \<and> decode (js_str ''TWFu'') = Inr [77, 97, 110]"
proof -
  have "encode [77, 97, 110] = Inr (js_str ''TWFu'')"
    by (simp add: encode_def btoa_def b64_char_def js_str_def)
  with base64_roundtrip [of "[77, 97, 110]"] show ?thesis by auto
qed

theorem createBlob_samples_witness:
  "\<exists>payload bytes ws. createBlob [3 / 2, - 1 / 4] = Inr payload
      \<and> mimeType payload = js_str ''audio/pcm;rate=16000''
      \<and> decode (data payload) = Inr bytes
      \<and> int16_view bytes = Inr ws
      \<and> map sint ws = [- 16384, - 8192]"
  using createBlob_samples [of "[3 / 2, - 1 / 4]"]
  by (simp add: js_trunc_def)

theorem handleApiError_sets_both_errors_witness:
  "\<not> is_abort (ErrorObject (js_str ''No audio data received for TTS.''))
   \<and> (\<exists>s'. handleApiError (ErrorObject (js_str ''No audio data received for TTS.''))
              (js_str ''text-to-speech'') (initial_state\<lparr>liveApiConnecting := True\<rparr>)
            = (Normal, s')
         \<and> textError s' = Some (js_str ''No audio data received for TTS.'')
         \<and> liveError s' = Some (js_str ''No audio data received for TTS.'')
         \<and> \<not> liveApiConnecting s')"
proof -
  have a: "\<not> is_abort (ErrorObject (js_str ''No audio data received for TTS.''))"
    by (simp add: is_abort_def)
  show ?thesis
    using a handleApiError_sets_both_errors [OF a, of "js_str ''text-to-speech''"
        "initial_state\<lparr>liveApiConnecting := True\<rparr>"]
    by (simp add: error_message_def)
qed


theorem post_teardown_send_is_noop_witness:
  "(2 :: nat) \<le> 5
   \<and> sessionPromiseRef (snd (block (take 5 (stop_statements (browser 0 (\<lambda>h. False))))
        (initial_state\<lparr>sessionPromiseRef := Some 3, mediaStreamRef := Some 2,
           scriptProcessorRef := Some 4\<rparr>))) = None
   \<and> (\<exists>s1. stopLiveConversation (browser 0 (\<lambda>h. False))
              (initial_state\<lparr>sessionPromiseRef := Some 3, mediaStreamRef := Some 2,
                 scriptProcessorRef := Some 4\<rparr>) = (Normal, s1)
         \<and> sessionPromiseRef s1 = None
         \<and> onaudioprocess (browser 1 (\<lambda>h. False)) [1 / 2, - 1 / 2] s1 = (Normal, s1))"
proof -
  have n: "(2 :: nat) \<le> 5" by simp
  from post_teardown_send_is_noop
      [of "browser 0 (\<lambda>h. False)"
          "initial_state\<lparr>sessionPromiseRef := Some 3, mediaStreamRef := Some 2,
                 scriptProcessorRef := Some 4\<rparr>"
          "browser 1 (\<lambda>h. False)" "[1 / 2, - 1 / 2]"]
  show ?thesis using n by blast
qed

theorem stop_idempotent_witness:
  "\<exists>s1. stopLiveConversation (browser 0 (\<lambda>h. h = 6))
            (initial_state\<lparr>isLiveApiConnected := True, audioContextRef := Some 1,
               mediaStreamRef := Some 2, sessionPromiseRef := Some 3,
               scriptProcessorRef := Some 4, analyserRef := Some 5, sourcesRef := [6],
               animationFrameIdRef := Some 9, canvasRef := Some False\<rparr>) = (Normal, s1)
      \<and> stopLiveConversation (browser 1 (\<lambda>h. True)) s1 = (Normal, s1)"
  by (rule stop_idempotent)

theorem decode_failure_keeps_session_witness:
  "inlineData \<lparr>inputTranscription = Some (Some (js_str ''Hi'')), outputTranscription = None,
               turnComplete = False, interrupted = False,
               inlineData = Some (js_str ''!'')\<rparr> = Some (js_str ''!'')
   \<and> js_str ''!'' \<noteq> []
   \<and> decode_chunk (js_str ''!'') = Inl InvalidCharacterError
   \<and> \<not> suicidal_input (browser 2 (\<lambda>h. False))
          \<lparr>inputTranscription = Some (Some (js_str ''Hi'')), outputTranscription = None,
           turnComplete = False, interrupted = False, inlineData = Some (js_str ''!'')\<rparr>
   \<and> (\<exists>s'. onmessage (browser 2 (\<lambda>h. False))
              \<lparr>inputTranscription = Some (Some (js_str ''Hi'')), outputTranscription = None,
               turnComplete = False, interrupted = False, inlineData = Some (js_str ''!'')\<rparr>
              (initial_state\<lparr>isLiveApiConnected := True, audioContextRef := Some 1,
                 mediaStreamRef := Some 2, sessionPromiseRef := Some 3,
                 scriptProcessorRef := Some 4, sourcesRef := [6]\<rparr>) = (Normal, s')
         \<and> sessionPromiseRef s' = Some 3 \<and> mediaStreamRef s' = Some 2
         \<and> scriptProcessorRef s' = Some 4 \<and> audioContextRef s' = Some 1
         \<and> isLiveApiConnected s' \<and> sourcesRef s' = [6]
         \<and> liveError s' = Some (js_str ''bad data''))"
proof -
  have h1: "inlineData \<lparr>inputTranscription = Some (Some (js_str ''Hi'')),
               outputTranscription = None, turnComplete = False, interrupted = False,
               inlineData = Some (js_str ''!'')\<rparr> = Some (js_str ''!'')"
    by simp
  have h2: "js_str ''!'' \<noteq> []"
    by (simp add: js_str_def)
  note h4 = greeting_is_calm [of 2 "\<lambda>h. False" False "Some (js_str ''!'')"]
  have msg: "errorText (browser 2 (\<lambda>h. False)) InvalidCharacterError = js_str ''bad data''"
    by (simp add: browser_def)
  from decode_failure_keeps_session [OF h1 h2 garbage_chunk h4,
      of "initial_state\<lparr>isLiveApiConnected := True, audioContextRef := Some 1,
                 mediaStreamRef := Some 2, sessionPromiseRef := Some 3,
                 scriptProcessorRef := Some 4, sourcesRef := [6]\<rparr>"]
  show ?thesis
    using h2 h4 garbage_chunk by (auto simp: initial_state_def msg)
qed

lemma silence_duration:
  "duration \<lparr>numberOfChannels = 1, frames = 1, sampleRate = 24000, channelData = [[0]]\<rparr> =
     6148914691236517 / 147573952589676412928"
  by (simp add: duration_def round_double_def ulp_def double_exponent_def
        binary_exponent_def round_half_even_def bit_length.simps Let_def)

lemma silence_payload:
  "has_payload \<lparr>inputTranscription = t, outputTranscription = None, turnComplete = c,
       interrupted = False, inlineData = Some (js_str ''AAA='')\<rparr>"
  by (simp add: has_payload_def js_str_def)

lemma silence_arrival:
  "map_option duration
     (chunk_of \<lparr>inputTranscription = t, outputTranscription = None, turnComplete = c,
        interrupted = False, inlineData = Some (js_str ''AAA='')\<rparr>) =
     Some (6148914691236517 / 147573952589676412928)"
proof -
  have "js_str ''AAA='' \<noteq> []"
    by (simp add: js_str_def)
  then have "chunk_of \<lparr>inputTranscription = t, outputTranscription = None, turnComplete = c,
       interrupted = False, inlineData = Some (js_str ''AAA='')\<rparr> =
     Some \<lparr>numberOfChannels = 1, frames = 1, sampleRate = 24000, channelData = [[0]]\<rparr>"
    by (simp add: chunk_of_def silence_chunk)
  then show ?thesis
    by (simp only: option.map silence_duration)
qed

lemma garbage_payload:
  "has_payload \<lparr>inputTranscription = t, outputTranscription = None, turnComplete = c,
       interrupted = False, inlineData = Some (js_str ''!'')\<rparr>"
  by (simp add: has_payload_def js_str_def)

lemma garbage_arrival:
  "chunk_of \<lparr>inputTranscription = t, outputTranscription = None, turnComplete = c,
       interrupted = False, inlineData = Some (js_str ''!'')\<rparr> = None"
proof -
  have "js_str ''!'' \<noteq> []"
    by (simp add: js_str_def)
  then show ?thesis
    by (simp add: chunk_of_def garbage_chunk)
qed

lemma quiet_is_calm:
  "\<not> suicidal_input q \<lparr>inputTranscription = None, outputTranscription = None,
       turnComplete = c, interrupted = False, inlineData = d\<rparr>"
  by (simp add: suicidal_input_def)

lemma browser_clock: "currentTime (browser c f) = c"
  by (simp add: browser_def)

lemma eighth_is_double: "is_double (1 / 8)"
  by (simp add: is_double_def round_double_def ulp_def double_exponent_def
        binary_exponent_def round_half_even_def bit_length.simps Let_def)

lemma quarter_is_double: "is_double (1 / 4)"
  by (simp add: is_double_def round_double_def ulp_def double_exponent_def
        binary_exponent_def round_half_even_def bit_length.simps Let_def)

lemma three_sixteenths_is_double: "is_double (3 / 16)"
  by (simp add: is_double_def round_double_def ulp_def double_exponent_def
        binary_exponent_def round_half_even_def bit_length.simps Let_def)

lemma zero_is_double: "is_double 0"
  by (simp add: is_double_def)

lemma two_silent_chunks:
  "double_starts 0
     [(1 / 8, Some (6148914691236517 / 147573952589676412928)),
      (1 / 8, Some (6148914691236517 / 147573952589676412928))] =
     [(1 / 8, 6148914691236517 / 147573952589676412928),
        (2252550413623143 / 18014398509481984, 6148914691236517 / 147573952589676412928)]"
  by (simp add: round_double_def ulp_def double_exponent_def binary_exponent_def
        round_half_even_def bit_length.simps Let_def)

lemma three_silent_chunks:
  "double_starts 0
     [(1 / 8, Some (6148914691236517 / 147573952589676412928)),
      (1 / 8, Some (6148914691236517 / 147573952589676412928)),
      (1 / 4, None),
      (3 / 16, Some (6148914691236517 / 147573952589676412928))] =
     [(1 / 8, 6148914691236517 / 147573952589676412928),
      (2252550413623143 / 18014398509481984, 6148914691236517 / 147573952589676412928),
      (1 / 4, 6148914691236517 / 147573952589676412928)]"
  by (simp add: round_double_def ulp_def double_exponent_def binary_exponent_def
        round_half_even_def bit_length.simps Let_def)

theorem chunks_are_scheduled_back_to_back_witness:
  "list_all calm
     [MessageArrives (browser (1 / 8) (\<lambda>h. False))
        \<lparr>inputTranscription = Some (Some (js_str ''Hi'')), outputTranscription = None,
         turnComplete = False, interrupted = False, inlineData = Some (js_str ''AAA='')\<rparr>,
      SourceEnds 0,
      FrameCaptured (browser (1 / 8) (\<lambda>h. False)) [1 / 2],
      MessageArrives (browser (1 / 8) (\<lambda>h. False))
        \<lparr>inputTranscription = None, outputTranscription = None,
         turnComplete = False, interrupted = False, inlineData = Some (js_str ''AAA='')\<rparr>,
      MessageArrives (browser (1 / 4) (\<lambda>h. False))
        \<lparr>inputTranscription = None, outputTranscription = None,
         turnComplete = False, interrupted = False, inlineData = Some (js_str ''!'')\<rparr>,
      MessageArrives (browser (3 / 16) (\<lambda>h. False))
        \<lparr>inputTranscription = None, outputTranscription = None,
         turnComplete = True, interrupted = False, inlineData = Some (js_str ''AAA='')\<rparr>]
   \<and> list_all double_clock
     [MessageArrives (browser (1 / 8) (\<lambda>h. False))
        \<lparr>inputTranscription = Some (Some (js_str ''Hi'')), outputTranscription = None,
         turnComplete = False, interrupted = False, inlineData = Some (js_str ''AAA='')\<rparr>,
      SourceEnds 0,
      FrameCaptured (browser (1 / 8) (\<lambda>h. False)) [1 / 2],
      MessageArrives (browser (1 / 8) (\<lambda>h. False))
        \<lparr>inputTranscription = None, outputTranscription = None,
         turnComplete = False, interrupted = False, inlineData = Some (js_str ''AAA='')\<rparr>,
      MessageArrives (browser (1 / 4) (\<lambda>h. False))
        \<lparr>inputTranscription = None, outputTranscription = None,
         turnComplete = False, interrupted = False, inlineData = Some (js_str ''!'')\<rparr>,
      MessageArrives (browser (3 / 16) (\<lambda>h. False))
        \<lparr>inputTranscription = None, outputTranscription = None,
         turnComplete = True, interrupted = False, inlineData = Some (js_str ''AAA='')\<rparr>]
   \<and> is_double (nextStartTimeRef initial_state)
   \<and> (\<exists>s'. forEach fire
          [MessageArrives (browser (1 / 8) (\<lambda>h. False))
             \<lparr>inputTranscription = Some (Some (js_str ''Hi'')), outputTranscription = None,
              turnComplete = False, interrupted = False, inlineData = Some (js_str ''AAA='')\<rparr>,
           SourceEnds 0,
           FrameCaptured (browser (1 / 8) (\<lambda>h. False)) [1 / 2],
           MessageArrives (browser (1 / 8) (\<lambda>h. False))
             \<lparr>inputTranscription = None, outputTranscription = None,
              turnComplete = False, interrupted = False, inlineData = Some (js_str ''AAA='')\<rparr>,
           MessageArrives (browser (1 / 4) (\<lambda>h. False))
             \<lparr>inputTranscription = None, outputTranscription = None,
              turnComplete = False, interrupted = False, inlineData = Some (js_str ''!'')\<rparr>,
           MessageArrives (browser (3 / 16) (\<lambda>h. False))
             \<lparr>inputTranscription = None, outputTranscription = None,
              turnComplete = True, interrupted = False, inlineData = Some (js_str ''AAA='')\<rparr>]
          initial_state = (Normal, s')
        \<and> scheduled (effects s') =
            [(1 / 8, 6148914691236517 / 147573952589676412928),
             (2252550413623143 / 18014398509481984, 6148914691236517 / 147573952589676412928),
             (1 / 4, 6148914691236517 / 147573952589676412928)])
   \<and> back_to_back
        [(1 / 8, 6148914691236517 / 147573952589676412928),
         (2252550413623143 / 18014398509481984, 6148914691236517 / 147573952589676412928),
         (1 / 4, 6148914691236517 / 147573952589676412928)]"
proof -
  let ?evs = "[MessageArrives (browser (1 / 8) (\<lambda>h. False))
        \<lparr>inputTranscription = Some (Some (js_str ''Hi'')), outputTranscription = None,
         turnComplete = False, interrupted = False, inlineData = Some (js_str ''AAA='')\<rparr>,
      SourceEnds 0,
      FrameCaptured (browser (1 / 8) (\<lambda>h. False)) [1 / 2],
      MessageArrives (browser (1 / 8) (\<lambda>h. False))
        \<lparr>inputTranscription = None, outputTranscription = None,
         turnComplete = False, interrupted = False, inlineData = Some (js_str ''AAA='')\<rparr>,
      MessageArrives (browser (1 / 4) (\<lambda>h. False))
        \<lparr>inputTranscription = None, outputTranscription = None,
         turnComplete = False, interrupted = False, inlineData = Some (js_str ''!'')\<rparr>,
      MessageArrives (browser (3 / 16) (\<lambda>h. False))
        \<lparr>inputTranscription = None, outputTranscription = None,
         turnComplete = True, interrupted = False, inlineData = Some (js_str ''AAA='')\<rparr>]"
  have calm: "list_all calm ?evs"
    by (simp add: quiet_is_calm greeting_is_calm)
  have clocks: "list_all double_clock ?evs"
    by (simp add: browser_clock eighth_is_double quarter_is_double three_sixteenths_is_double)
  have cursor: "is_double (nextStartTimeRef initial_state)"
    by (simp add: initial_state_def zero_is_double)
  have arr: "arrivals ?evs =
     [(1 / 8, Some (6148914691236517 / 147573952589676412928)),
      (1 / 8, Some (6148914691236517 / 147573952589676412928)),
      (1 / 4, None),
      (3 / 16, Some (6148914691236517 / 147573952589676412928))]"
    by (simp add: silence_payload silence_arrival garbage_payload garbage_arrival
          browser_clock)
  have start: "scheduled (effects initial_state) = []" "nextStartTimeRef initial_state = 0"
    by (simp_all add: initial_state_def)
  have starts: "double_starts (nextStartTimeRef initial_state) (arrivals ?evs) =
     [(1 / 8, 6148914691236517 / 147573952589676412928),
      (2252550413623143 / 18014398509481984, 6148914691236517 / 147573952589676412928),
      (1 / 4, 6148914691236517 / 147573952589676412928)]"
    unfolding arr start by (rule three_silent_chunks)
  from chunks_are_scheduled_back_to_back [OF calm clocks cursor] obtain s' where
    run: "forEach fire ?evs initial_state = (Normal, s')"
    and sch: "drop (length (scheduled (effects initial_state))) (scheduled (effects s')) =
        double_starts (nextStartTimeRef initial_state) (arrivals ?evs)"
    and chain: "back_to_back (double_starts (nextStartTimeRef initial_state) (arrivals ?evs))"
    by blast
  from sch [unfolded starts] have "scheduled (effects s') =
     [(1 / 8, 6148914691236517 / 147573952589676412928),
      (2252550413623143 / 18014398509481984, 6148914691236517 / 147573952589676412928),
      (1 / 4, 6148914691236517 / 147573952589676412928)]"
    by (simp add: start)
  with run have "\<exists>s'. forEach fire ?evs initial_state = (Normal, s')
      \<and> scheduled (effects s') =
     [(1 / 8, 6148914691236517 / 147573952589676412928),
      (2252550413623143 / 18014398509481984, 6148914691236517 / 147573952589676412928),
      (1 / 4, 6148914691236517 / 147573952589676412928)]"
    by blast
  with calm clocks cursor chain [unfolded starts] show ?thesis
    by blast
qed

text \<open>
  C1, as the specification words it, fails. Two one-frame chunks arrive while the
  output clock reads \<open>0.125\<close>. Both handlers complete normally and nothing resets the
  cursor; the first chunk starts at \<open>0.125\<close> and lasts the double nearest to
  \<open>1/24000\<close>; the cursor advances to the double nearest to their sum, which lies below
  the sum, and the second chunk starts there: earlier than the first start plus the
  first duration, and not where a cursor advanced by exactly the duration would put it.
\<close>

theorem second_chunk_starts_before_exact_sum:
  "list_all calm
     [MessageArrives (browser (1 / 8) (\<lambda>h. False))
        \<lparr>inputTranscription = None, outputTranscription = None,
         turnComplete = False, interrupted = False, inlineData = Some (js_str ''AAA='')\<rparr>,
      MessageArrives (browser (1 / 8) (\<lambda>h. False))
        \<lparr>inputTranscription = None, outputTranscription = None,
         turnComplete = True, interrupted = False, inlineData = Some (js_str ''AAA='')\<rparr>]
   \<and> fst (forEach fire
          [MessageArrives (browser (1 / 8) (\<lambda>h. False))
             \<lparr>inputTranscription = None, outputTranscription = None,
              turnComplete = False, interrupted = False, inlineData = Some (js_str ''AAA='')\<rparr>,
           MessageArrives (browser (1 / 8) (\<lambda>h. False))
             \<lparr>inputTranscription = None, outputTranscription = None,
              turnComplete = True, interrupted = False, inlineData = Some (js_str ''AAA='')\<rparr>]
          initial_state) = Normal
   \<and> scheduled (effects (snd (forEach fire
          [MessageArrives (browser (1 / 8) (\<lambda>h. False))
             \<lparr>inputTranscription = None, outputTranscription = None,
              turnComplete = False, interrupted = False, inlineData = Some (js_str ''AAA='')\<rparr>,
           MessageArrives (browser (1 / 8) (\<lambda>h. False))
             \<lparr>inputTranscription = None, outputTranscription = None,
              turnComplete = True, interrupted = False, inlineData = Some (js_str ''AAA='')\<rparr>]
          initial_state))) =
       [(1 / 8, 6148914691236517 / 147573952589676412928),
        (2252550413623143 / 18014398509481984, 6148914691236517 / 147573952589676412928)]
   \<and> \<not> chained (scheduled (effects (snd (forEach fire
          [MessageArrives (browser (1 / 8) (\<lambda>h. False))
             \<lparr>inputTranscription = None, outputTranscription = None,
              turnComplete = False, interrupted = False, inlineData = Some (js_str ''AAA='')\<rparr>,
           MessageArrives (browser (1 / 8) (\<lambda>h. False))
             \<lparr>inputTranscription = None, outputTranscription = None,
              turnComplete = True, interrupted = False, inlineData = Some (js_str ''AAA='')\<rparr>]
          initial_state))))
   \<and> scheduled (effects (snd (forEach fire
          [MessageArrives (browser (1 / 8) (\<lambda>h. False))
             \<lparr>inputTranscription = None, outputTranscription = None,
              turnComplete = False, interrupted = False, inlineData = Some (js_str ''AAA='')\<rparr>,
           MessageArrives (browser (1 / 8) (\<lambda>h. False))
             \<lparr>inputTranscription = None, outputTranscription = None,
              turnComplete = True, interrupted = False, inlineData = Some (js_str ''AAA='')\<rparr>]
          initial_state))) \<noteq>
       claimed_starts (nextStartTimeRef initial_state) (arrivals
          [MessageArrives (browser (1 / 8) (\<lambda>h. False))
             \<lparr>inputTranscription = None, outputTranscription = None,
              turnComplete = False, interrupted = False, inlineData = Some (js_str ''AAA='')\<rparr>,
           MessageArrives (browser (1 / 8) (\<lambda>h. False))
             \<lparr>inputTranscription = None, outputTranscription = None,
              turnComplete = True, interrupted = False, inlineData = Some (js_str ''AAA='')\<rparr>])"
proof -
  let ?evs = "[MessageArrives (browser (1 / 8) (\<lambda>h. False))
        \<lparr>inputTranscription = None, outputTranscription = None,
         turnComplete = False, interrupted = False, inlineData = Some (js_str ''AAA='')\<rparr>,
      MessageArrives (browser (1 / 8) (\<lambda>h. False))
        \<lparr>inputTranscription = None, outputTranscription = None,
         turnComplete = True, interrupted = False, inlineData = Some (js_str ''AAA='')\<rparr>]"
  have calm: "list_all calm ?evs"
    by (simp add: quiet_is_calm)
  have arrivals: "arrivals ?evs =
      [(1 / 8, Some (6148914691236517 / 147573952589676412928)),
       (1 / 8, Some (6148914691236517 / 147573952589676412928))]"
    by (simp add: silence_payload silence_arrival browser_clock)
  from run_calm [OF calm, of initial_state] obtain s' where
    run: "forEach fire ?evs initial_state = (Normal, s')"
    and sch: "scheduled (effects s') =
        scheduled (effects initial_state)
        @ double_starts (nextStartTimeRef initial_state) (arrivals ?evs)"
    by blast
  have start: "scheduled (effects initial_state) = []" "nextStartTimeRef initial_state = 0"
    by (simp_all add: initial_state_def)
  have sch': "scheduled (effects s') =
      [(1 / 8, 6148914691236517 / 147573952589676412928),
        (2252550413623143 / 18014398509481984, 6148914691236517 / 147573952589676412928)]"
    unfolding sch arrivals start two_silent_chunks by simp
  have "\<not> chained (scheduled (effects s'))"
    unfolding sch' by simp
  moreover have "scheduled (effects s') \<noteq>
      claimed_starts (nextStartTimeRef initial_state) (arrivals ?evs)"
    unfolding sch' arrivals start by simp
  ultimately show ?thesis
    using calm sch' unfolding run by simp
qed

end
